theory Spec2Isabelle
  imports Main "HOL-Library.AList"
begin

section \<open>Constants and string helpers\<close>

text \<open>
  \<^verbatim>\<open>const BAN_PROCESSING_TIMEOUT = 30000; // 30 seconds\<close>.
  Times are the millisecond readings of \<^verbatim>\<open>Date.now()\<close>, modelled as integers.
\<close>

definition BAN_PROCESSING_TIMEOUT :: int where
  "BAN_PROCESSING_TIMEOUT = 30000"

text \<open>The prefix that marks a ban reason written by the program itself.\<close>

definition SYNC_TAG :: string where
  "SYNC_TAG = ''[BanSync]''"

definition NO_REASON :: string where
  "NO_REASON = ''No reason provided''"

text \<open>\<^verbatim>\<open>s.startsWith(p)\<close> of JavaScript.\<close>

definition startsWith :: "string \<Rightarrow> string \<Rightarrow> bool" where
  "startsWith s p = (take (length p) s = p)"

text \<open>
  \<^verbatim>\<open>r || 'No reason provided'\<close> for a reason that is a string, \<^verbatim>\<open>null\<close> or
  \<^verbatim>\<open>undefined\<close>: the empty string is falsy as well.
\<close>

definition orNoReason :: "string option \<Rightarrow> string" where
  "orNoReason r = (case r of None \<Rightarrow> NO_REASON | Some s \<Rightarrow> if s = [] then NO_REASON else s)"

text \<open>\<^verbatim>\<open>ban.reason?.startsWith('[BanSync]')\<close>: a missing reason gives \<^verbatim>\<open>undefined\<close>, which is falsy.\<close>

definition reasonTagged :: "string option \<Rightarrow> bool" where
  "reasonTagged r = (case r of None \<Rightarrow> False | Some s \<Rightarrow> startsWith s SYNC_TAG)"


section \<open>The table of bans being processed\<close>

text \<open>
  \<^verbatim>\<open>const processingBans = new Map<string, number>()\<close>, from the key
  \<^verbatim>\<open>"userId-guildId"\<close> to the time the entry was written.
\<close>

type_synonym locks = "string \<rightharpoonup> int"

definition getBanKey :: "string \<Rightarrow> string \<Rightarrow> string" where
  "getBanKey userId guildId = userId @ ''-'' @ guildId"

text \<open>
  \<^verbatim>\<open>isBanProcessing\<close> reads the clock (\<open>now\<close>) and may delete the entry it finds
  expired, so it returns the table with its answer. \<^verbatim>\<open>if (!timestamp) return false\<close>
  is taken for a missing entry and for the number 0 alike.
\<close>

definition isBanProcessing :: "int \<Rightarrow> string \<Rightarrow> string \<Rightarrow> locks \<Rightarrow> bool \<times> locks" where
  "isBanProcessing now userId guildId m =
     (let key = getBanKey userId guildId in
      case m key of
        None \<Rightarrow> (False, m)
      | Some timestamp \<Rightarrow>
          if timestamp = 0 then (False, m)
          else if now - timestamp > BAN_PROCESSING_TIMEOUT then (False, m(key := None))
          else (True, m))"

definition markBanProcessing :: "int \<Rightarrow> string \<Rightarrow> string \<Rightarrow> locks \<Rightarrow> locks" where
  "markBanProcessing now userId guildId m = m(getBanKey userId guildId \<mapsto> now)"

definition unmarkBanProcessing :: "string \<Rightarrow> string \<Rightarrow> locks \<Rightarrow> locks" where
  "unmarkBanProcessing userId guildId m = m(getBanKey userId guildId := None)"

text \<open>The callback of \<^verbatim>\<open>setInterval(..., 60000)\<close>: every expired entry is deleted.\<close>

definition cleanupOldEntries :: "int \<Rightarrow> locks \<Rightarrow> locks" where
  "cleanupOldEntries now m =
     (\<lambda>key. case m key of
        None \<Rightarrow> None
      | Some timestamp \<Rightarrow> if now - timestamp > BAN_PROCESSING_TIMEOUT then None else Some timestamp)"

text \<open>
  The two propagation loops acquire an entry by the same two statements, with nothing
  awaited between them: \<^verbatim>\<open>if (isBanProcessing(u, g)) { ...; continue; }\<close> and then
  \<^verbatim>\<open>markBanProcessing(u, g)\<close>. \<open>tryAcquire\<close> is that pair; \<open>nowCheck\<close> and \<open>nowMark\<close> are
  the clock readings of the two calls.
\<close>

definition tryAcquire :: "int \<Rightarrow> int \<Rightarrow> string \<Rightarrow> string \<Rightarrow> locks \<Rightarrow> bool \<times> locks" where
  "tryAcquire nowCheck nowMark userId guildId m =
     (case isBanProcessing nowCheck userId guildId m of
        (True, m') \<Rightarrow> (False, m')
      | (False, m') \<Rightarrow> (True, markBanProcessing nowMark userId guildId m'))"

text \<open>An entry for the key exists and its age is within the timeout.\<close>

definition liveToken :: "int \<Rightarrow> locks \<Rightarrow> string \<Rightarrow> bool" where
  "liveToken now m key =
     (case m key of None \<Rightarrow> False | Some timestamp \<Rightarrow> now - timestamp \<le> BAN_PROCESSING_TIMEOUT)"


section \<open>Data of the program\<close>

text \<open>\<^verbatim>\<open>interface ServerConfig { id; name; logChannelId }\<close>, one entry of \<^verbatim>\<open>servers.json\<close>.\<close>

record ServerConfig =
  server_id :: string
  server_name :: string
  logChannelId :: "string option"

text \<open>\<^verbatim>\<open>interface BanResult\<close>: the outcome recorded for one server.\<close>

record BanResult =
  serverId :: string
  serverName :: string
  success :: bool
  alreadyBanned :: bool
  error :: "string option"

text \<open>\<^verbatim>\<open>interface UnbanResult\<close>.\<close>

record UnbanResult =
  serverId_u :: string
  serverName_u :: string
  success_u :: bool
  wasNotBanned :: bool
  error_u :: "string option"

text \<open>The argument of \<^verbatim>\<open>syncBanToAllServers\<close>, also the value type of \<^verbatim>\<open>allBans\<close>.\<close>

record BanInfo =
  userId :: string
  userTag :: string
  sourceServerId :: string
  sourceServerName :: string
  reason :: string

text \<open>A ban as the platform library returns it: the banned user and the reason, which may be missing.\<close>

record GuildBan =
  ban_user_id :: string
  ban_user_tag :: string
  ban_reason :: "string option"

text \<open>
  What a rejected promise carries into a \<^verbatim>\<open>catch\<close> block: an \<^verbatim>\<open>Error\<close> object with its
  message, or any other value. \<open>errorMessage\<close> is
  \<^verbatim>\<open>error instanceof Error ? error.message : 'Unknown error'\<close>.
\<close>

datatype thrown = ErrorObj string | NonError

fun errorMessage :: "thrown \<Rightarrow> string" where
  "errorMessage (ErrorObj message) = message"
| "errorMessage NonError = ''Unknown error''"

text \<open>
  The remote calls the program awaits, in the order it issues them: the trace is part of
  the state, so that "no call was made" and "no write was issued" are properties of it.
\<close>

datatype call =
    MembersFetchMe string
  | BansFetch string string
  | BansFetchAll string
  | MembersBan string string string
  | MembersUnban string string string

fun isBanWrite :: "call \<Rightarrow> bool" where
  "isBanWrite (MembersBan g u r) = True"
| "isBanWrite c = False"


fun callGuild :: "call \<Rightarrow> string" where
  "callGuild (MembersFetchMe g) = g"
| "callGuild (BansFetch g u) = g"
| "callGuild (BansFetchAll g) = g"
| "callGuild (MembersBan g u r) = g"
| "callGuild (MembersUnban g u r) = g"

record sys =
  processingBans :: locks
  calls :: "call list"

text \<open>
  What the platform answers while one server is processed in a loop: whether
  \<^verbatim>\<open>client.guilds.cache.get(id)\<close> finds the guild, the result of fetching the bot's own
  member and testing \<^verbatim>\<open>BanMembers\<close>, the result of \<^verbatim>\<open>guild.bans.fetch(userId)\<close>, the
  clock at the two reads of \<^verbatim>\<open>Date.now()\<close>, and whether the write
  (\<^verbatim>\<open>guild.members.ban\<close> or \<^verbatim>\<open>guild.members.unban\<close>) resolves (\<open>None\<close>) or rejects.
  The answers are given per position of the loop, so nothing is assumed about how the
  remote servers behave from one call to the next.
\<close>

record node_resp =
  inCache :: bool
  botCanBan :: "thrown + bool"
  existingBan :: "thrown + GuildBan"
  nowCheck :: int
  nowMark :: int
  writeOutcome :: "thrown option"

definition addCall :: "call \<Rightarrow> sys \<Rightarrow> sys" where
  "addCall c st = st\<lparr>calls := calls st @ [c]\<rparr>"

definition banResult :: "ServerConfig \<Rightarrow> bool \<Rightarrow> bool \<Rightarrow> string option \<Rightarrow> BanResult" where
  "banResult c s a e =
     \<lparr>serverId = server_id c, serverName = server_name c, success = s, alreadyBanned = a, error = e\<rparr>"

definition unbanResult :: "ServerConfig \<Rightarrow> bool \<Rightarrow> bool \<Rightarrow> string option \<Rightarrow> UnbanResult" where
  "unbanResult c s w e =
     \<lparr>serverId_u = server_id c, serverName_u = server_name c, success_u = s, wasNotBanned = w,
      error_u = e\<rparr>"


section \<open>syncBanToAllServers\<close>

text \<open>
  \<^verbatim>\<open>`[BanSync] Originally banned in ${banInfo.sourceServerName} | Reason: ${banInfo.reason}`\<close>
\<close>

definition syncReason :: "BanInfo \<Rightarrow> string" where
  "syncReason banInfo =
     ''[BanSync] Originally banned in '' @ sourceServerName banInfo @ '' | Reason: '' @ reason banInfo"

text \<open>
  The body of the \<^verbatim>\<open>for\<close> loop of \<^verbatim>\<open>syncBanToAllServers\<close> for one configured server.
  The guild comes from \<^verbatim>\<open>client.guilds.cache.get(configServer.id)\<close>, so \<^verbatim>\<open>guild.id\<close> is the
  configured id.
  The \<^verbatim>\<open>catch\<close> block covers the whole \<^verbatim>\<open>try\<close>, so a failure to fetch the bot's member
  also runs \<^verbatim>\<open>unmarkBanProcessing\<close>; \<^verbatim>\<open>guild.bans.fetch(...).catch(() => null)\<close> turns
  every rejection into "no ban found".
\<close>

definition syncStep :: "BanInfo \<Rightarrow> ServerConfig \<Rightarrow> node_resp \<Rightarrow> sys \<Rightarrow> BanResult \<times> sys" where
  "syncStep banInfo c r st =
     (if \<not> inCache r then (banResult c False False (Some ''Bot not in server''), st)
      else
        let st1 = addCall (MembersFetchMe (server_id c)) st in
        case botCanBan r of
          Inl e \<Rightarrow>
            (banResult c False False (Some (errorMessage e)),
             st1\<lparr>processingBans := unmarkBanProcessing (userId banInfo) (server_id c) (processingBans st1)\<rparr>)
        | Inr False \<Rightarrow> (banResult c False False (Some ''Missing Permissions''), st1)
        | Inr True \<Rightarrow>
            let st2 = addCall (BansFetch (server_id c) (userId banInfo)) st1 in
            case existingBan r of
              Inr b \<Rightarrow> (banResult c True True None, st2)
            | Inl e0 \<Rightarrow>
                (case isBanProcessing (nowCheck r) (userId banInfo) (server_id c) (processingBans st2) of
                   (True, m) \<Rightarrow> (banResult c True True None, st2\<lparr>processingBans := m\<rparr>)
                 | (False, m) \<Rightarrow>
                     let st3 = st2\<lparr>processingBans :=
                                 markBanProcessing (nowMark r) (userId banInfo) (server_id c) m\<rparr>;
                         st4 = addCall (MembersBan (server_id c) (userId banInfo) (syncReason banInfo)) st3
                     in
                     case writeOutcome r of
                       None \<Rightarrow> (banResult c True False None, st4)
                     | Some e \<Rightarrow>
                         (banResult c False False (Some (errorMessage e)),
                          st4\<lparr>processingBans :=
                                unmarkBanProcessing (userId banInfo) (server_id c) (processingBans st4)\<rparr>)))"

text \<open>The loop over \<^verbatim>\<open>serversConfig.servers\<close>; \<open>resp i\<close> are the answers met at position \<open>i\<close>.\<close>

fun syncBanToAllServers ::
  "BanInfo \<Rightarrow> ServerConfig list \<Rightarrow> (nat \<Rightarrow> node_resp) \<Rightarrow> sys \<Rightarrow> BanResult list \<times> sys" where
  "syncBanToAllServers banInfo [] resp st = ([], st)"
| "syncBanToAllServers banInfo (c # cs) resp st =
     (case syncStep banInfo c (resp 0) st of
        (r, st') \<Rightarrow>
          (case syncBanToAllServers banInfo cs (\<lambda>i. resp (Suc i)) st' of
             (rs, st'') \<Rightarrow> (r # rs, st'')))"


section \<open>The guildBanAdd handler\<close>

text \<open>
  \<^verbatim>\<open>new Map(serversConfig.servers.map(s => [s.id, s]))\<close>: when an id occurs twice the
  later entry replaces the earlier one.
\<close>

definition serverMap :: "ServerConfig list \<Rightarrow> string \<rightharpoonup> ServerConfig" where
  "serverMap servers = map_of (rev (map (\<lambda>s. (server_id s, s)) servers))"

record BanEvent =
  ev_user_id :: string
  ev_user_tag :: string
  ev_guild_id :: string

text \<open>
  The answers the handler meets: the clock at its first \<^verbatim>\<open>isBanProcessing\<close>, the result of
  \<^verbatim>\<open>sourceGuild.bans.fetch(bannedUser.id)\<close>, and the answers of the loop.
\<close>

record handler_env =
  nowEntry :: int
  fetchedBan :: "thrown + GuildBan"
  nodeResp :: "nat \<Rightarrow> node_resp"

text \<open>\<^verbatim>\<open>`[BanSync] Banned in ${sourceServer.name} | Reason: ${banReason}`\<close>\<close>

definition eventSyncReason :: "string \<Rightarrow> string \<Rightarrow> string" where
  "eventSyncReason sourceName banReason =
     ''[BanSync] Banned in '' @ sourceName @ '' | Reason: '' @ banReason"

text \<open>
  The body of the handler's loop. The test for the source guild comes after the test
  that the guild is in the cache and before the \<^verbatim>\<open>try\<close> block.
\<close>

definition eventStep ::
  "string \<Rightarrow> string \<Rightarrow> string \<Rightarrow> string \<Rightarrow> ServerConfig \<Rightarrow> node_resp \<Rightarrow> sys \<Rightarrow> BanResult \<times> sys" where
  "eventStep bannedUserId sourceGuildId sourceName banReason c r st =
     (if \<not> inCache r then (banResult c False False (Some ''Bot not in server''), st)
      else if server_id c = sourceGuildId then (banResult c True False None, st)
      else
        let st1 = addCall (MembersFetchMe (server_id c)) st in
        case botCanBan r of
          Inl e \<Rightarrow>
            (banResult c False False (Some (errorMessage e)),
             st1\<lparr>processingBans := unmarkBanProcessing bannedUserId (server_id c) (processingBans st1)\<rparr>)
        | Inr False \<Rightarrow> (banResult c False False (Some ''Missing Permissions''), st1)
        | Inr True \<Rightarrow>
            let st2 = addCall (BansFetch (server_id c) bannedUserId) st1 in
            case existingBan r of
              Inr b \<Rightarrow> (banResult c True True None, st2)
            | Inl e0 \<Rightarrow>
                (case isBanProcessing (nowCheck r) bannedUserId (server_id c) (processingBans st2) of
                   (True, m) \<Rightarrow> (banResult c True True None, st2\<lparr>processingBans := m\<rparr>)
                 | (False, m) \<Rightarrow>
                     let st3 = st2\<lparr>processingBans :=
                                 markBanProcessing (nowMark r) bannedUserId (server_id c) m\<rparr>;
                         st4 = addCall (MembersBan (server_id c) bannedUserId
                                          (eventSyncReason sourceName banReason)) st3
                     in
                     case writeOutcome r of
                       None \<Rightarrow> (banResult c True False None, st4)
                     | Some e \<Rightarrow>
                         (banResult c False False (Some (errorMessage e)),
                          st4\<lparr>processingBans :=
                                unmarkBanProcessing bannedUserId (server_id c) (processingBans st4)\<rparr>)))"

fun eventLoop ::
  "string \<Rightarrow> string \<Rightarrow> string \<Rightarrow> string \<Rightarrow> ServerConfig list \<Rightarrow> (nat \<Rightarrow> node_resp) \<Rightarrow> sys
     \<Rightarrow> BanResult list \<times> sys" where
  "eventLoop u g n b [] resp st = ([], st)"
| "eventLoop u g n b (c # cs) resp st =
     (case eventStep u g n b c (resp 0) st of
        (r, st') \<Rightarrow>
          (case eventLoop u g n b cs (\<lambda>i. resp (Suc i)) st' of
             (rs, st'') \<Rightarrow> (r # rs, st'')))"

text \<open>
  The three counters of the handler and of \<^verbatim>\<open>sendBanReportToAll\<close>, each a
  \<^verbatim>\<open>results.filter(...).length\<close>.
\<close>

definition successCount :: "BanResult list \<Rightarrow> nat" where
  "successCount results = length (filter (\<lambda>r. success r \<and> \<not> alreadyBanned r) results)"

definition failureCount :: "BanResult list \<Rightarrow> nat" where
  "failureCount results = length (filter (\<lambda>r. \<not> success r) results)"

definition alreadyBannedCount :: "BanResult list \<Rightarrow> nat" where
  "alreadyBannedCount results = length (filter (\<lambda>r. alreadyBanned r) results)"

text \<open>What \<^verbatim>\<open>sendBanReportToAll\<close> is given and what it puts in the summary.\<close>

record BanReport =
  rep_sourceServerName :: string
  rep_user_id :: string
  rep_results :: "BanResult list"
  rep_banReason :: string
  rep_successCount :: nat
  rep_failureCount :: nat
  rep_alreadyBannedCount :: nat

definition sendBanReportToAll :: "string \<Rightarrow> string \<Rightarrow> BanResult list \<Rightarrow> string \<Rightarrow> BanReport" where
  "sendBanReportToAll sourceName bannedUserId results banReason =
     \<lparr>rep_sourceServerName = sourceName, rep_user_id = bannedUserId, rep_results = results,
      rep_banReason = banReason, rep_successCount = successCount results,
      rep_failureCount = failureCount results, rep_alreadyBannedCount = alreadyBannedCount results\<rparr>"

text \<open>
  \<^verbatim>\<open>client.on('guildBanAdd', ...)\<close>. The result is the report handed to
  \<^verbatim>\<open>sendBanReportToAll\<close>, or \<open>None\<close> when the handler returned before its loop.
\<close>

definition guildBanAdd ::
  "ServerConfig list \<Rightarrow> BanEvent \<Rightarrow> handler_env \<Rightarrow> sys \<Rightarrow> BanReport option \<times> sys" where
  "guildBanAdd servers ev env st =
     (case serverMap servers (ev_guild_id ev) of
        None \<Rightarrow> (None, st)
      | Some sourceServer \<Rightarrow>
          (case isBanProcessing (nowEntry env) (ev_user_id ev) (ev_guild_id ev) (processingBans st) of
             (True, m) \<Rightarrow> (None, st\<lparr>processingBans := m\<rparr>)
           | (False, m) \<Rightarrow>
               let st1 = addCall (BansFetch (ev_guild_id ev) (ev_user_id ev)) (st\<lparr>processingBans := m\<rparr>);
                   banReason = (case fetchedBan env of
                                  Inr fetched \<Rightarrow> orNoReason (ban_reason fetched)
                                | Inl e \<Rightarrow> NO_REASON)
               in
               if startsWith banReason SYNC_TAG then (None, st1)
               else
                 (case eventLoop (ev_user_id ev) (ev_guild_id ev) (server_name sourceServer) banReason
                         servers (nodeResp env) st1 of
                    (results, st2) \<Rightarrow>
                      (Some (sendBanReportToAll (server_name sourceServer) (ev_user_id ev) results banReason),
                       st2))))"


section \<open>The unban command\<close>

text \<open>\<^verbatim>\<open>/^\d{17,19}$/.test(userId)\<close>: 17 to 19 characters, each one of the ten decimal digits.\<close>

definition isDigit :: "char \<Rightarrow> bool" where
  "isDigit c = (c \<in> set ''0123456789'')"

definition validUserId :: "string \<Rightarrow> bool" where
  "validUserId s = (17 \<le> length s \<and> length s \<le> 19 \<and> list_all isDigit s)"

text \<open>
  The interaction as the command reads it: whether \<^verbatim>\<open>interaction.memberPermissions\<close> has
  \<^verbatim>\<open>BanMembers\<close>, the two options and the tag of the requesting user.
\<close>

record UnbanCommand =
  cmd_hasBanMembers :: bool
  cmd_user_id :: string
  cmd_reason :: "string option"
  cmd_requester :: string

text \<open>\<^verbatim>\<open>`[BanSync Unban] ${reason} | Requested by ${interaction.user.tag}`\<close>\<close>

definition unbanReason :: "string \<Rightarrow> string \<Rightarrow> string" where
  "unbanReason r requester = ''[BanSync Unban] '' @ r @ '' | Requested by '' @ requester"

definition unbanStep :: "string \<Rightarrow> string \<Rightarrow> ServerConfig \<Rightarrow> node_resp \<Rightarrow> sys \<Rightarrow> UnbanResult \<times> sys" where
  "unbanStep uid auditReason c r st =
     (if \<not> inCache r then (unbanResult c False False (Some ''Bot not in server''), st)
      else
        let st1 = addCall (MembersFetchMe (server_id c)) st in
        case botCanBan r of
          Inl e \<Rightarrow> (unbanResult c False False (Some (errorMessage e)), st1)
        | Inr False \<Rightarrow> (unbanResult c False False (Some ''Missing Permissions''), st1)
        | Inr True \<Rightarrow>
            let st2 = addCall (BansFetch (server_id c) uid) st1 in
            case existingBan r of
              Inl e0 \<Rightarrow> (unbanResult c True True None, st2)
            | Inr b \<Rightarrow>
                let st3 = addCall (MembersUnban (server_id c) uid auditReason) st2 in
                case writeOutcome r of
                  None \<Rightarrow> (unbanResult c True False None, st3)
                | Some e \<Rightarrow> (unbanResult c False False (Some (errorMessage e)), st3))"

fun unbanLoop ::
  "string \<Rightarrow> string \<Rightarrow> ServerConfig list \<Rightarrow> (nat \<Rightarrow> node_resp) \<Rightarrow> sys \<Rightarrow> UnbanResult list \<times> sys" where
  "unbanLoop uid a [] resp st = ([], st)"
| "unbanLoop uid a (c # cs) resp st =
     (case unbanStep uid a c (resp 0) st of
        (r, st') \<Rightarrow>
          (case unbanLoop uid a cs (\<lambda>i. resp (Suc i)) st' of
             (rs, st'') \<Rightarrow> (r # rs, st'')))"

definition unbannedCount :: "UnbanResult list \<Rightarrow> nat" where
  "unbannedCount results = length (filter (\<lambda>r. success_u r \<and> \<not> wasNotBanned r) results)"

definition notBannedCount :: "UnbanResult list \<Rightarrow> nat" where
  "notBannedCount results = length (filter (\<lambda>r. wasNotBanned r) results)"

definition errorCount :: "UnbanResult list \<Rightarrow> nat" where
  "errorCount results = length (filter (\<lambda>r. \<not> success_u r) results)"

text \<open>What a command answers to the interaction.\<close>

record SyncStats =
  totalBans :: nat
  newBans :: nat
  stats_alreadyBanned :: nat
  errors :: nat
  details :: "(string \<times> string \<times> BanResult list) list"

datatype reply =
    NoPermission
  | InvalidFormat
  | UnbanSummary "UnbanResult list" nat nat nat
  | UnbanFailed
  | NoBansFound
  | SyncSummary SyncStats

text \<open>
  \<^verbatim>\<open>handleUnbanCommand\<close>: the permission test, the test of the id's format, then, inside
  the outer \<^verbatim>\<open>try\<close>, the loop, the three counters and the summary. The loop catches what
  its remote calls throw, so the outer \<^verbatim>\<open>catch\<close> is reached only from the statements
  after the loop: building the embed (the platform library rejects a field value of more
  than 1024 characters, as a long reason or a long list of results gives), editing the
  reply, sending the log. \<open>afterLoop\<close> is what those statements do: \<open>None\<close> when
  they run through, \<open>Some e\<close> when one of them throws \<open>e\<close>; the command then answers
  \<^verbatim>\<open>An error occurred during the unban process\<close> and no summary. The calls of the loop
  have been made in both cases.
\<close>

definition handleUnbanCommand ::
  "ServerConfig list \<Rightarrow> UnbanCommand \<Rightarrow> (nat \<Rightarrow> node_resp) \<Rightarrow> thrown option \<Rightarrow> sys
     \<Rightarrow> reply \<times> sys" where
  "handleUnbanCommand servers cmd resp afterLoop st =
     (if \<not> cmd_hasBanMembers cmd then (NoPermission, st)
      else if \<not> validUserId (cmd_user_id cmd) then (InvalidFormat, st)
      else
        (case unbanLoop (cmd_user_id cmd)
                (unbanReason (orNoReason (cmd_reason cmd)) (cmd_requester cmd)) servers resp st of
           (results, st') \<Rightarrow>
             (case afterLoop of
                None \<Rightarrow>
                  (UnbanSummary results (unbannedCount results) (notBannedCount results)
                     (errorCount results),
                   st')
              | Some e \<Rightarrow> (UnbanFailed, st'))))"


section \<open>The sync command\<close>

text \<open>
  \<^verbatim>\<open>allBans\<close> is a \<^verbatim>\<open>Map\<close> from user id to the ban's data. It is iterated later, in
  insertion order, so it is an association list: \<open>AList.update\<close> replaces the value of
  a key in place and appends a new key at the end, as \<^verbatim>\<open>Map.set\<close> does.
\<close>

type_synonym allBans = "(string \<times> BanInfo) list"

definition mkBanInfo :: "ServerConfig \<Rightarrow> GuildBan \<Rightarrow> BanInfo" where
  "mkBanInfo c ban =
     \<lparr>userId = ban_user_id ban, userTag = ban_user_tag ban, sourceServerId = server_id c,
      sourceServerName = server_name c, reason = orNoReason (ban_reason ban)\<rparr>"

text \<open>
  The body of \<^verbatim>\<open>for (const [userId, ban] of bans)\<close>; the key of the collection is the id
  of the banned user. \<^verbatim>\<open>!allBans.get(userId)!.reason\<close> holds for the empty string only.
\<close>

definition addBan :: "ServerConfig \<Rightarrow> GuildBan \<Rightarrow> allBans \<Rightarrow> allBans" where
  "addBan c ban allBans =
     (if reasonTagged (ban_reason ban) then allBans
      else if (case map_of allBans (ban_user_id ban) of None \<Rightarrow> True | Some seen \<Rightarrow> reason seen = [])
      then AList.update (ban_user_id ban) (mkBanInfo c ban) allBans
      else allBans)"

fun addBans :: "ServerConfig \<Rightarrow> GuildBan list \<Rightarrow> allBans \<Rightarrow> allBans" where
  "addBans c [] allBans = allBans"
| "addBans c (ban # bans) allBans = addBans c bans (addBan c ban allBans)"

text \<open>
  What one server answers when its bans are collected: whether the guild is in the cache
  and the result of \<^verbatim>\<open>guild.bans.fetch()\<close>, the bans in the order of the collection.
\<close>

record list_resp =
  lr_inCache :: bool
  lr_bans :: "thrown + GuildBan list"

fun collectAllBans ::
  "ServerConfig list \<Rightarrow> (nat \<Rightarrow> list_resp) \<Rightarrow> allBans \<Rightarrow> sys \<Rightarrow> allBans \<times> sys" where
  "collectAllBans [] resp allBans st = (allBans, st)"
| "collectAllBans (c # cs) resp allBans st =
     (if \<not> lr_inCache (resp 0) then collectAllBans cs (\<lambda>i. resp (Suc i)) allBans st
      else
        let st1 = addCall (BansFetchAll (server_id c)) st in
        case lr_bans (resp 0) of
          Inl e \<Rightarrow> collectAllBans cs (\<lambda>i. resp (Suc i)) allBans st1
        | Inr bans \<Rightarrow> collectAllBans cs (\<lambda>i. resp (Suc i)) (addBans c bans allBans) st1)"

text \<open>The truth value JavaScript gives to \<^verbatim>\<open>result.error\<close>, a string or \<^verbatim>\<open>undefined\<close>.\<close>

definition truthy :: "string option \<Rightarrow> bool" where
  "truthy e = (case e of None \<Rightarrow> False | Some s \<Rightarrow> s \<noteq> [])"

text \<open>The \<^verbatim>\<open>if / else if / else if\<close> chain that counts one result into the statistics.\<close>

definition countResult :: "BanResult \<Rightarrow> SyncStats \<Rightarrow> SyncStats" where
  "countResult result stats =
     (if success result \<and> \<not> alreadyBanned result then stats\<lparr>newBans := newBans stats + 1\<rparr>
      else if alreadyBanned result then stats\<lparr>stats_alreadyBanned := stats_alreadyBanned stats + 1\<rparr>
      else if \<not> success result \<and> truthy (error result) then stats\<lparr>errors := errors stats + 1\<rparr>
      else stats)"

fun countResults :: "BanResult list \<Rightarrow> SyncStats \<Rightarrow> SyncStats" where
  "countResults [] stats = stats"
| "countResults (result # results) stats = countResults results (countResult result stats)"

text \<open>
  The loop \<^verbatim>\<open>for (const [userId, banInfo] of allBans)\<close>; \<open>resp j\<close> are the answers met
  while the \<open>j\<close>-th ban is propagated.
\<close>

fun syncEach ::
  "ServerConfig list \<Rightarrow> allBans \<Rightarrow> (nat \<Rightarrow> nat \<Rightarrow> node_resp) \<Rightarrow> SyncStats \<Rightarrow> sys \<Rightarrow> SyncStats \<times> sys" where
  "syncEach servers [] resp stats st = (stats, st)"
| "syncEach servers ((uid, banInfo) # rest) resp stats st =
     (case syncBanToAllServers banInfo servers (resp 0) st of
        (results, st') \<Rightarrow>
          syncEach servers rest (\<lambda>j. resp (Suc j))
            (countResults results
               (stats\<lparr>totalBans := totalBans stats + 1,
                      details := AList.update uid (userTag banInfo, results) (details stats)\<rparr>))
            st')"

definition emptyStats :: SyncStats where
  "emptyStats = \<lparr>totalBans = 0, newBans = 0, stats_alreadyBanned = 0, errors = 0, details = []\<rparr>"

record sync_env =
  sync_hasBanMembers :: bool
  listResp :: "nat \<Rightarrow> list_resp"
  propResp :: "nat \<Rightarrow> nat \<Rightarrow> node_resp"

definition handleSyncCommand :: "ServerConfig list \<Rightarrow> sync_env \<Rightarrow> sys \<Rightarrow> reply \<times> sys" where
  "handleSyncCommand servers env st =
     (if \<not> sync_hasBanMembers env then (NoPermission, st)
      else
        (case collectAllBans servers (listResp env) [] st of
           (allBans, st1) \<Rightarrow>
             if allBans = [] then (NoBansFound, st1)
             else
               (case syncEach servers allBans (propResp env) emptyStats st1 of
                  (stats, st2) \<Rightarrow> (SyncSummary stats, st2))))"


section \<open>Runs on concrete inputs and the records a pass reads\<close>

text \<open>The state when the process starts: \<^verbatim>\<open>new Map()\<close> and no call made yet.\<close>

definition initialSys :: sys where
  "initialSys = \<lparr>processingBans = Map.empty, calls = []\<rparr>"

text \<open>Answers given as a list, one per position, and a default for the positions beyond it.\<close>

definition answers :: "'a list \<Rightarrow> 'a \<Rightarrow> nat \<Rightarrow> 'a" where
  "answers xs d i = (if i < length xs then xs ! i else d)"

text \<open>
  The ban records a sync pass reads, in the order it reads them: for each configured
  server in the cache whose \<^verbatim>\<open>guild.bans.fetch()\<close> resolves, its bans paired with the
  server.
\<close>

fun seenBans :: "ServerConfig list \<Rightarrow> (nat \<Rightarrow> list_resp) \<Rightarrow> (ServerConfig \<times> GuildBan) list" where
  "seenBans [] resp = []"
| "seenBans (c # cs) resp =
     (if lr_inCache (resp 0)
      then (case lr_bans (resp 0) of Inl e \<Rightarrow> [] | Inr bans \<Rightarrow> map (Pair c) bans)
      else [])
     @ seenBans cs (\<lambda>i. resp (Suc i))"

text \<open>A record of the user \<open>u\<close> whose reason does not carry the sync tag.\<close>

definition untaggedFor :: "string \<Rightarrow> ServerConfig \<times> GuildBan \<Rightarrow> bool" where
  "untaggedFor u p = (ban_user_id (snd p) = u \<and> \<not> reasonTagged (ban_reason (snd p)))"


text \<open>
  Three configured servers, a user id of 18 digits, and the answers of a server that
  is in the cache, lets the bot ban, has no ban for the user (the fetch rejects with
  "Unknown Ban") and accepts the write; the clock reads 1000.
\<close>

definition serverA :: ServerConfig where
  "serverA = \<lparr>server_id = ''A'', server_name = ''Alpha'', logChannelId = None\<rparr>"

definition serverB :: ServerConfig where
  "serverB = \<lparr>server_id = ''B'', server_name = ''Beta'', logChannelId = None\<rparr>"

definition serverC :: ServerConfig where
  "serverC = \<lparr>server_id = ''C'', server_name = ''Gamma'', logChannelId = None\<rparr>"

definition user1 :: string where
  "user1 = ''123456789012345678''"

definition user2 :: string where
  "user2 = ''223456789012345678''"

definition respFresh :: node_resp where
  "respFresh = \<lparr>inCache = True, botCanBan = Inr True, existingBan = Inl (ErrorObj ''Unknown Ban''),
                 nowCheck = 1000, nowMark = 1000, writeOutcome = None\<rparr>"

definition banOf :: "string \<Rightarrow> string option \<Rightarrow> GuildBan" where
  "banOf uid r = \<lparr>ban_user_id = uid, ban_user_tag = ''user#0001'', ban_reason = r\<rparr>"

text \<open>The calls issued between two states of one run: the trace only grows at its end.\<close>

definition newCalls :: "sys \<Rightarrow> sys \<Rightarrow> call list" where
  "newCalls st st' = drop (length (calls st)) (calls st')"


text \<open>The ban writes among them.\<close>

definition banWrites :: "sys \<Rightarrow> sys \<Rightarrow> call list" where
  "banWrites st st' = filter isBanWrite (newCalls st st')"

text \<open>A ban of \<open>user1\<close> made on server A with the reason "spam", as an event and as a collected ban.\<close>

definition event1 :: BanEvent where
  "event1 = \<lparr>ev_user_id = user1, ev_user_tag = ''user#0001'', ev_guild_id = ''A''\<rparr>"

definition banInfo1 :: BanInfo where
  "banInfo1 = \<lparr>userId = user1, userTag = ''user#0001'', sourceServerId = ''A'',
                sourceServerName = ''Alpha'', reason = ''spam''\<rparr>"

definition env1 :: "node_resp list \<Rightarrow> handler_env" where
  "env1 rs = \<lparr>nowEntry = 1000, fetchedBan = Inr (banOf user1 (Some ''spam'')),
              nodeResp = answers rs respFresh\<rparr>"


text \<open>
  The event a platform sends for the ban the program wrote on server B, and the answers
  its handler meets at the time \<open>t\<close>: the fetched ban carries the reason the program wrote.
\<close>

definition echoEvent :: BanEvent where
  "echoEvent = \<lparr>ev_user_id = user1, ev_user_tag = ''user#0001'', ev_guild_id = ''B''\<rparr>"

definition echoEnv :: "int \<Rightarrow> handler_env" where
  "echoEnv t = \<lparr>nowEntry = t,
                fetchedBan = Inr (banOf user1 (Some ''[BanSync] Banned in Alpha | Reason: spam'')),
                nodeResp = answers [respFresh, respFresh] respFresh\<rparr>"

text \<open>
  A first round over the servers A, B and C for the ban of \<open>user1\<close> made on A: B accepts
  the write and C's write is rejected. Then, at the time 50000, the handler of the event
  that the write on B raised, when its lookup of the ban on B is rejected: in its loop A's
  lookup finds the ban and C has none.
\<close>

definition firstRound :: sys where
  "firstRound =
     snd (guildBanAdd [serverA, serverB, serverC] event1
            (env1 [respFresh, respFresh, respFresh\<lparr>writeOutcome := Some (ErrorObj ''Request timed out'')\<rparr>])
            initialSys)"

definition echoRejectedEnv :: handler_env where
  "echoRejectedEnv =
     \<lparr>nowEntry = 50000,
      fetchedBan = Inl (ErrorObj ''Missing Permissions''),
      nodeResp = answers
        [respFresh\<lparr>existingBan := Inr (banOf user1 (Some ''spam'')), nowCheck := 50000, nowMark := 50000\<rparr>,
         respFresh\<lparr>nowCheck := 50000, nowMark := 50000\<rparr>,
         respFresh\<lparr>nowCheck := 50000, nowMark := 50000\<rparr>]
        respFresh\<rparr>"

text \<open>
  The ban lists of a sync pass over the servers A and B. On A both users are banned
  with a reason the program wrote; on B \<open>user1\<close> is banned with the reason "spam" and
  \<open>user2\<close> again with a tagged reason.
\<close>

definition listResp1 :: "nat \<Rightarrow> list_resp" where
  "listResp1 = answers
     [\<lparr>lr_inCache = True,
       lr_bans = Inr [banOf user1 (Some ''[BanSync] Banned in Beta | Reason: spam''),
                      banOf user2 (Some ''[BanSync] Banned in Gamma | Reason: raid'')]\<rparr>,
      \<lparr>lr_inCache = True,
       lr_bans = Inr [banOf user1 (Some ''spam''),
                      banOf user2 (Some ''[BanSync] Banned in Gamma | Reason: raid'')]\<rparr>]
     \<lparr>lr_inCache = False, lr_bans = Inl NonError\<rparr>"

text \<open>
  The sync pass over the ban lists \<open>listResp1\<close>: when the one collected ban is
  propagated, the lookups on A and on B both find the user banned.
\<close>

definition syncEnv1 :: sync_env where
  "syncEnv1 =
     \<lparr>sync_hasBanMembers = True,
      listResp = listResp1,
      propResp = answers
                   [answers [respFresh\<lparr>existingBan :=
                                          Inr (banOf user1 (Some ''[BanSync] Banned in Beta | Reason: spam''))\<rparr>,
                             respFresh\<lparr>existingBan := Inr (banOf user1 (Some ''spam''))\<rparr>] respFresh]
                   (answers [] respFresh)\<rparr>"

text \<open>
  A sync pass in which A lists the ban of \<open>user1\<close> with the reason "spam" and B lists no
  ban; when the ban is propagated, A's lookup finds it and B's write is rejected with an
  \<^verbatim>\<open>Error\<close> whose message is the empty string.
\<close>

definition syncEnv2 :: sync_env where
  "syncEnv2 =
     \<lparr>sync_hasBanMembers = True,
      listResp = answers [\<lparr>lr_inCache = True, lr_bans = Inr [banOf user1 (Some ''spam'')]\<rparr>,
                          \<lparr>lr_inCache = True, lr_bans = Inr []\<rparr>]
                   \<lparr>lr_inCache = False, lr_bans = Inl NonError\<rparr>,
      propResp = answers
                   [answers [respFresh\<lparr>existingBan := Inr (banOf user1 (Some ''spam''))\<rparr>,
                             respFresh\<lparr>writeOutcome := Some (ErrorObj [])\<rparr>] respFresh]
                   (answers [] respFresh)\<rparr>"

text \<open>The sum of the three counters of the sync statistics.\<close>

definition counted :: "SyncStats \<Rightarrow> nat" where
  "counted stats = newBans stats + stats_alreadyBanned stats + errors stats"



section \<open>Properties of the table of bans being processed\<close>

lemma isBanProcessing_fst:
  "m (getBanKey u g) \<noteq> Some 0 \<Longrightarrow>
   fst (isBanProcessing now u g m) = liveToken now m (getBanKey u g)"
  by (auto simp: isBanProcessing_def liveToken_def Let_def split: option.splits)

lemma isBanProcessing_True_same: "isBanProcessing now u g m = (True, m') \<Longrightarrow> m' = m"
  by (auto simp: isBanProcessing_def Let_def split: option.splits if_splits)

text \<open>
  The periodic cleanup deletes only entries that a later \<^verbatim>\<open>isBanProcessing\<close> would
  take for expired as well, so it never changes that answer.
\<close>

lemma cleanupOldEntries_keeps_answer:
  "t \<le> now \<Longrightarrow>
   fst (isBanProcessing now u g (cleanupOldEntries t m)) = fst (isBanProcessing now u g m)"
  by (auto simp: isBanProcessing_def cleanupOldEntries_def Let_def split: option.splits)

text \<open>
  C4. Acquiring an entry for a user and a guild succeeds exactly when the table holds no
  entry for that key whose age is within the 30 seconds, and a successful acquisition
  writes the entry; a failed one leaves the table as it was. An entry written at time
  \<open>T\<close> and not removed makes every acquisition at a time \<open>t\<close> with \<open>t - T \<le> 30000\<close>
  fail, and every acquisition at a time after \<open>T + 30000\<close> succeed. The stored time is a
  reading of \<^verbatim>\<open>Date.now()\<close>, milliseconds since 1970, hence not 0: the program's test
  \<^verbatim>\<open>!timestamp\<close> would take an entry written at time 0 for a missing one.
\<close>

theorem tryAcquire_spec:
  "(m (getBanKey u g) \<noteq> Some 0 \<longrightarrow>
      fst (tryAcquire now now' u g m) = (\<not> liveToken now m (getBanKey u g)))
   \<and> (fst (tryAcquire now now' u g m) \<longrightarrow>
        snd (tryAcquire now now' u g m) (getBanKey u g) = Some now')
   \<and> (\<not> fst (tryAcquire now now' u g m) \<longrightarrow> snd (tryAcquire now now' u g m) = m)
   \<and> (T \<noteq> 0 \<and> fst (tryAcquire T0 T u g m) \<longrightarrow>
        (\<forall>t t'. T + BAN_PROCESSING_TIMEOUT < t \<longrightarrow>
           fst (tryAcquire t t' u g (snd (tryAcquire T0 T u g m))))
        \<and> (\<forall>t t'. t - T \<le> BAN_PROCESSING_TIMEOUT \<longrightarrow>
           \<not> fst (tryAcquire t t' u g (snd (tryAcquire T0 T u g m)))))"
proof (intro conjI impI allI)
  assume "m (getBanKey u g) \<noteq> Some 0"
  then show "fst (tryAcquire now now' u g m) = (\<not> liveToken now m (getBanKey u g))"
    using isBanProcessing_fst [of m u g now]
    by (cases "isBanProcessing now u g m") (auto simp: tryAcquire_def)
next
  assume "fst (tryAcquire now now' u g m)"
  then show "snd (tryAcquire now now' u g m) (getBanKey u g) = Some now'"
    by (cases "isBanProcessing now u g m")
       (auto simp: tryAcquire_def markBanProcessing_def split: bool.splits)
next
  assume "\<not> fst (tryAcquire now now' u g m)"
  then show "snd (tryAcquire now now' u g m) = m"
    by (cases "isBanProcessing now u g m")
       (auto simp: tryAcquire_def dest: isBanProcessing_True_same split: bool.splits)
next
  fix t t' :: int
  assume a: "T \<noteq> 0 \<and> fst (tryAcquire T0 T u g m)" and late: "T + BAN_PROCESSING_TIMEOUT < t"
  have held: "snd (tryAcquire T0 T u g m) (getBanKey u g) = Some T"
    using a by (cases "isBanProcessing T0 u g m")
       (auto simp: tryAcquire_def markBanProcessing_def split: bool.splits)
  show "fst (tryAcquire t t' u g (snd (tryAcquire T0 T u g m)))"
    using held a late
    by (simp add: tryAcquire_def isBanProcessing_def Let_def)
next
  fix t t' :: int
  assume a: "T \<noteq> 0 \<and> fst (tryAcquire T0 T u g m)" and early: "t - T \<le> BAN_PROCESSING_TIMEOUT"
  have held: "snd (tryAcquire T0 T u g m) (getBanKey u g) = Some T"
    using a by (cases "isBanProcessing T0 u g m")
       (auto simp: tryAcquire_def markBanProcessing_def split: bool.splits)
  show "\<not> fst (tryAcquire t t' u g (snd (tryAcquire T0 T u g m)))"
    using held a early
    by (simp add: tryAcquire_def isBanProcessing_def Let_def)
qed

theorem tryAcquire_spec_witness:
  "fst (tryAcquire 1000 1000 ''111'' ''222'' Map.empty)
   \<and> snd (tryAcquire 1000 1000 ''111'' ''222'' Map.empty) (getBanKey ''111'' ''222'') = Some 1000
   \<and> \<not> fst (tryAcquire 31000 31000 ''111'' ''222'' (snd (tryAcquire 1000 1000 ''111'' ''222'' Map.empty)))
   \<and> fst (tryAcquire 31001 31001 ''111'' ''222'' (snd (tryAcquire 1000 1000 ''111'' ''222'' Map.empty)))"
  using tryAcquire_spec [of Map.empty "''111''" "''222''" 1000 1000 1000 1000]
  by (simp add: liveToken_def BAN_PROCESSING_TIMEOUT_def)


lemmas fixtures = serverA_def serverB_def serverC_def user1_def user2_def respFresh_def banOf_def
  initialSys_def answers_def


section \<open>Events from servers that are not configured\<close>

lemma serverMap_None: "(serverMap servers g = None) = (g \<notin> set (map server_id servers))"
  by (auto simp: serverMap_def map_of_eq_None_iff image_iff)

text \<open>
  C9. When the id of the guild of a ban event is not the id of any configured server, the
  handler returns at once: it hands no report (and so no list of outcomes) to
  \<^verbatim>\<open>sendBanReportToAll\<close>, issues no call, and leaves the table of bans being processed
  as it was.
\<close>

theorem guildBanAdd_unconfigured:
  "ev_guild_id ev \<notin> set (map server_id servers) \<Longrightarrow> guildBanAdd servers ev env st = (None, st)"
  using serverMap_None [of servers "ev_guild_id ev"] by (simp add: guildBanAdd_def)

theorem guildBanAdd_unconfigured_witness:
  "guildBanAdd [serverA, serverB]
     \<lparr>ev_user_id = user1, ev_user_tag = ''user#0001'', ev_guild_id = ''Z''\<rparr>
     \<lparr>nowEntry = 1000, fetchedBan = Inr (banOf user1 (Some ''spam'')), nodeResp = answers [] respFresh\<rparr>
     initialSys = (None, initialSys)"
  using guildBanAdd_unconfigured
    [of "\<lparr>ev_user_id = user1, ev_user_tag = ''user#0001'', ev_guild_id = ''Z''\<rparr>"
        "[serverA, serverB]"]
  by (simp add: serverA_def serverB_def)


section \<open>Properties of the unban command\<close>

text \<open>
  C10, as the code has it. When the user id given to the unban command is not 17 to 19
  decimal digits, the command issues no call and changes no state; it answers with the
  invalid-format error when the requester has the Ban Members permission, and with the
  missing-permission error when not, since the permission is tested first.
\<close>

theorem handleUnbanCommand_invalid_id:
  "\<not> validUserId (cmd_user_id cmd) \<Longrightarrow>
   handleUnbanCommand servers cmd resp afterLoop st =
     (if cmd_hasBanMembers cmd then InvalidFormat else NoPermission, st)"
  by (simp add: handleUnbanCommand_def)

theorem handleUnbanCommand_invalid_id_witness:
  "handleUnbanCommand [serverA, serverB]
     \<lparr>cmd_hasBanMembers = True, cmd_user_id = ''12345'', cmd_reason = None, cmd_requester = ''mod#1''\<rparr>
     (answers [] respFresh) None initialSys = (InvalidFormat, initialSys)"
  using handleUnbanCommand_invalid_id
    [of "\<lparr>cmd_hasBanMembers = True, cmd_user_id = ''12345'', cmd_reason = None, cmd_requester = ''mod#1''\<rparr>"]
  by (simp add: validUserId_def)

text \<open>
  C10 as stated fails for a requester without the permission: the id \<^verbatim>\<open>12345\<close> is not
  valid, and the answer is the missing-permission error, not the invalid-format one.
\<close>

theorem handleUnbanCommand_invalid_id_counterexample:
  "\<not> validUserId ''12345''
   \<and> fst (handleUnbanCommand [serverA, serverB]
            \<lparr>cmd_hasBanMembers = False, cmd_user_id = ''12345'', cmd_reason = None,
             cmd_requester = ''mod#1''\<rparr>
            (answers [] respFresh) None initialSys) = NoPermission
   \<and> NoPermission \<noteq> InvalidFormat"
  by (simp add: validUserId_def handleUnbanCommand_def)





lemma unbanLoop_length: "length (fst (unbanLoop uid a servers resp st)) = length servers"
proof (induction servers arbitrary: resp st)
  case Nil
  then show ?case by simp
next
  case (Cons c cs)
  obtain r st1 where step: "unbanStep uid a c (resp 0) st = (r, st1)"
    by (cases "unbanStep uid a c (resp 0) st")
  obtain rs st2 where rest: "unbanLoop uid a cs (\<lambda>i. resp (Suc i)) st1 = (rs, st2)"
    by (cases "unbanLoop uid a cs (\<lambda>i. resp (Suc i)) st1")
  from Cons.IH [of "\<lambda>i. resp (Suc i)" st1] step rest show ?case by simp
qed

text \<open>
  The command runs the loop whenever the requester is permitted and the id is well
  formed; what the statements after the loop do changes the answer only.
\<close>

lemma handleUnbanCommand_runs_loop:
  "cmd_hasBanMembers cmd \<Longrightarrow> validUserId (cmd_user_id cmd) \<Longrightarrow>
   snd (handleUnbanCommand servers cmd resp afterLoop st)
     = snd (unbanLoop (cmd_user_id cmd)
              (unbanReason (orNoReason (cmd_reason cmd)) (cmd_requester cmd)) servers resp st)
   \<and> fst (handleUnbanCommand servers cmd resp afterLoop st)
     = (case afterLoop of
          None \<Rightarrow>
            (let results = fst (unbanLoop (cmd_user_id cmd)
                    (unbanReason (orNoReason (cmd_reason cmd)) (cmd_requester cmd)) servers resp st)
             in UnbanSummary results (unbannedCount results) (notBannedCount results)
                  (errorCount results))
        | Some e \<Rightarrow> UnbanFailed)"
  by (cases "unbanLoop (cmd_user_id cmd)
               (unbanReason (orNoReason (cmd_reason cmd)) (cmd_requester cmd)) servers resp st")
     (simp add: handleUnbanCommand_def split: option.splits)




section \<open>The propagation loops\<close>

lemmas run_defs = syncStep_def eventStep_def addCall_def banResult_def isBanProcessing_def
  markBanProcessing_def unmarkBanProcessing_def getBanKey_def syncReason_def eventSyncReason_def
  guildBanAdd_def serverMap_def orNoReason_def NO_REASON_def startsWith_def SYNC_TAG_def
  BAN_PROCESSING_TIMEOUT_def sendBanReportToAll_def successCount_def failureCount_def
  alreadyBannedCount_def newCalls_def banWrites_def Let_def



lemma syncStep_trace:
  "\<exists>new. calls (snd (syncStep banInfo c r st)) = calls st @ new
     \<and> (\<forall>x\<in>set new. isBanWrite x \<longrightarrow>
           x = MembersBan (server_id c) (userId banInfo) (syncReason banInfo)
           \<and> inCache r \<and> botCanBan r = Inr True \<and> isl (existingBan r))"
  by (cases "isBanProcessing (nowCheck r) (userId banInfo) (server_id c) (processingBans st)")
     (auto simp: syncStep_def addCall_def Let_def split: sum.splits bool.splits option.splits)

lemma eventStep_trace:
  "\<exists>new. calls (snd (eventStep u g n b c r st)) = calls st @ new
     \<and> (\<forall>x\<in>set new. isBanWrite x \<longrightarrow>
           x = MembersBan (server_id c) u (eventSyncReason n b) \<and> server_id c \<noteq> g
           \<and> inCache r \<and> botCanBan r = Inr True \<and> isl (existingBan r))"
  by (cases "isBanProcessing (nowCheck r) u (server_id c) (processingBans st)")
     (auto simp: eventStep_def addCall_def Let_def split: sum.splits bool.splits option.splits)

lemma syncLoop_trace:
  "\<exists>new. calls (snd (syncBanToAllServers banInfo servers resp st)) = calls st @ new
     \<and> (\<forall>x\<in>set new. isBanWrite x \<longrightarrow>
           (\<exists>j<length servers.
               x = MembersBan (server_id (servers ! j)) (userId banInfo) (syncReason banInfo)
               \<and> inCache (resp j) \<and> botCanBan (resp j) = Inr True \<and> isl (existingBan (resp j))))"
proof (induction servers arbitrary: resp st)
  case Nil
  then show ?case by simp
next
  case (Cons c cs)
  obtain r st1 where step: "syncStep banInfo c (resp 0) st = (r, st1)"
    by (cases "syncStep banInfo c (resp 0) st")
  obtain rs st2 where rest: "syncBanToAllServers banInfo cs (\<lambda>i. resp (Suc i)) st1 = (rs, st2)"
    by (cases "syncBanToAllServers banInfo cs (\<lambda>i. resp (Suc i)) st1")
  from syncStep_trace [of banInfo c "resp 0" st] step
  obtain new1 where n1: "calls st1 = calls st @ new1"
    and w1: "\<forall>x\<in>set new1. isBanWrite x \<longrightarrow>
           x = MembersBan (server_id c) (userId banInfo) (syncReason banInfo)
           \<and> inCache (resp 0) \<and> botCanBan (resp 0) = Inr True \<and> isl (existingBan (resp 0))"
    by auto
  from Cons.IH [of "\<lambda>i. resp (Suc i)" st1] rest
  obtain new2 where n2: "calls st2 = calls st1 @ new2"
    and w2: "\<forall>x\<in>set new2. isBanWrite x \<longrightarrow>
           (\<exists>j<length cs.
               x = MembersBan (server_id (cs ! j)) (userId banInfo) (syncReason banInfo)
               \<and> inCache (resp (Suc j)) \<and> botCanBan (resp (Suc j)) = Inr True
               \<and> isl (existingBan (resp (Suc j))))"
    by auto
  have "\<forall>x\<in>set (new1 @ new2). isBanWrite x \<longrightarrow>
           (\<exists>j<length (c # cs).
               x = MembersBan (server_id ((c # cs) ! j)) (userId banInfo) (syncReason banInfo)
               \<and> inCache (resp j) \<and> botCanBan (resp j) = Inr True \<and> isl (existingBan (resp j)))"
  proof (intro ballI impI)
    fix x assume x: "x \<in> set (new1 @ new2)" and u: "isBanWrite x"
    show "\<exists>j<length (c # cs).
               x = MembersBan (server_id ((c # cs) ! j)) (userId banInfo) (syncReason banInfo)
               \<and> inCache (resp j) \<and> botCanBan (resp j) = Inr True \<and> isl (existingBan (resp j))"
    proof (cases "x \<in> set new1")
      case True
      with w1 u show ?thesis by (intro exI [of _ 0]) auto
    next
      case False
      with x have "x \<in> set new2" by simp
      with w2 u obtain j where "j < length cs"
        "x = MembersBan (server_id (cs ! j)) (userId banInfo) (syncReason banInfo)"
        "inCache (resp (Suc j))" "botCanBan (resp (Suc j)) = Inr True"
        "isl (existingBan (resp (Suc j)))" by blast
      then show ?thesis by (intro exI [of _ "Suc j"]) auto
    qed
  qed
  with n1 n2 step rest show ?case by (intro exI [of _ "new1 @ new2"]) simp
qed

lemma eventLoop_trace:
  "\<exists>new. calls (snd (eventLoop u g n b servers resp st)) = calls st @ new
     \<and> (\<forall>x\<in>set new. isBanWrite x \<longrightarrow>
           (\<exists>j<length servers.
               x = MembersBan (server_id (servers ! j)) u (eventSyncReason n b)
               \<and> server_id (servers ! j) \<noteq> g
               \<and> inCache (resp j) \<and> botCanBan (resp j) = Inr True \<and> isl (existingBan (resp j))))"
proof (induction servers arbitrary: resp st)
  case Nil
  then show ?case by simp
next
  case (Cons c cs)
  obtain r st1 where step: "eventStep u g n b c (resp 0) st = (r, st1)"
    by (cases "eventStep u g n b c (resp 0) st")
  obtain rs st2 where rest: "eventLoop u g n b cs (\<lambda>i. resp (Suc i)) st1 = (rs, st2)"
    by (cases "eventLoop u g n b cs (\<lambda>i. resp (Suc i)) st1")
  from eventStep_trace [of u g n b c "resp 0" st] step
  obtain new1 where n1: "calls st1 = calls st @ new1"
    and w1: "\<forall>x\<in>set new1. isBanWrite x \<longrightarrow>
           x = MembersBan (server_id c) u (eventSyncReason n b) \<and> server_id c \<noteq> g
           \<and> inCache (resp 0) \<and> botCanBan (resp 0) = Inr True \<and> isl (existingBan (resp 0))"
    by auto
  from Cons.IH [of "\<lambda>i. resp (Suc i)" st1] rest
  obtain new2 where n2: "calls st2 = calls st1 @ new2"
    and w2: "\<forall>x\<in>set new2. isBanWrite x \<longrightarrow>
           (\<exists>j<length cs.
               x = MembersBan (server_id (cs ! j)) u (eventSyncReason n b)
               \<and> server_id (cs ! j) \<noteq> g
               \<and> inCache (resp (Suc j)) \<and> botCanBan (resp (Suc j)) = Inr True
               \<and> isl (existingBan (resp (Suc j))))"
    by auto
  have "\<forall>x\<in>set (new1 @ new2). isBanWrite x \<longrightarrow>
           (\<exists>j<length (c # cs).
               x = MembersBan (server_id ((c # cs) ! j)) u (eventSyncReason n b)
               \<and> server_id ((c # cs) ! j) \<noteq> g
               \<and> inCache (resp j) \<and> botCanBan (resp j) = Inr True \<and> isl (existingBan (resp j)))"
  proof (intro ballI impI)
    fix x assume x: "x \<in> set (new1 @ new2)" and w: "isBanWrite x"
    show "\<exists>j<length (c # cs).
               x = MembersBan (server_id ((c # cs) ! j)) u (eventSyncReason n b)
               \<and> server_id ((c # cs) ! j) \<noteq> g
               \<and> inCache (resp j) \<and> botCanBan (resp j) = Inr True \<and> isl (existingBan (resp j))"
    proof (cases "x \<in> set new1")
      case True
      with w1 w show ?thesis by (intro exI [of _ 0]) auto
    next
      case False
      with x have "x \<in> set new2" by simp
      with w2 w obtain j where "j < length cs"
        "x = MembersBan (server_id (cs ! j)) u (eventSyncReason n b)"
        "server_id (cs ! j) \<noteq> g"
        "inCache (resp (Suc j))" "botCanBan (resp (Suc j)) = Inr True"
        "isl (existingBan (resp (Suc j)))" by blast
      then show ?thesis by (intro exI [of _ "Suc j"]) auto
    qed
  qed
  with n1 n2 step rest show ?case by (intro exI [of _ "new1 @ new2"]) simp
qed

lemma eventLoop_length: "length (fst (eventLoop u g n b servers resp st)) = length servers"
proof (induction servers arbitrary: resp st)
  case Nil
  then show ?case by simp
next
  case (Cons c cs)
  obtain r st1 where step: "eventStep u g n b c (resp 0) st = (r, st1)"
    by (cases "eventStep u g n b c (resp 0) st")
  obtain rs st2 where rest: "eventLoop u g n b cs (\<lambda>i. resp (Suc i)) st1 = (rs, st2)"
    by (cases "eventLoop u g n b cs (\<lambda>i. resp (Suc i)) st1")
  from Cons.IH [of "\<lambda>i. resp (Suc i)" st1] step rest show ?case by simp
qed

lemma syncLoop_length: "length (fst (syncBanToAllServers banInfo servers resp st)) = length servers"
proof (induction servers arbitrary: resp st)
  case Nil
  then show ?case by simp
next
  case (Cons c cs)
  obtain r st1 where step: "syncStep banInfo c (resp 0) st = (r, st1)"
    by (cases "syncStep banInfo c (resp 0) st")
  obtain rs st2 where rest: "syncBanToAllServers banInfo cs (\<lambda>i. resp (Suc i)) st1 = (rs, st2)"
    by (cases "syncBanToAllServers banInfo cs (\<lambda>i. resp (Suc i)) st1")
  from Cons.IH [of "\<lambda>i. resp (Suc i)" st1] step rest show ?case by simp
qed

lemma eventLoop_nth_origin:
  "j < length servers \<Longrightarrow> server_id (servers ! j) = g \<Longrightarrow> inCache (resp j) \<Longrightarrow>
   fst (eventLoop u g n b servers resp st) ! j = banResult (servers ! j) True False None"
proof (induction servers arbitrary: j resp st)
  case Nil
  then show ?case by simp
next
  case (Cons c cs)
  obtain r st1 where step: "eventStep u g n b c (resp 0) st = (r, st1)"
    by (cases "eventStep u g n b c (resp 0) st")
  obtain rs st2 where rest: "eventLoop u g n b cs (\<lambda>i. resp (Suc i)) st1 = (rs, st2)"
    by (cases "eventLoop u g n b cs (\<lambda>i. resp (Suc i)) st1")
  show ?case
  proof (cases j)
    case 0
    with Cons.prems step rest show ?thesis by (auto simp: eventStep_def)
  next
    case (Suc k)
    with Cons.prems Cons.IH [of k "\<lambda>i. resp (Suc i)" st1] step rest show ?thesis by simp
  qed
qed

lemma syncLoop_nth_found:
  "j < length servers \<Longrightarrow> inCache (resp j) \<Longrightarrow> botCanBan (resp j) = Inr True \<Longrightarrow>
   \<not> isl (existingBan (resp j)) \<Longrightarrow>
   fst (syncBanToAllServers banInfo servers resp st) ! j = banResult (servers ! j) True True None"
proof (induction servers arbitrary: j resp st)
  case Nil
  then show ?case by simp
next
  case (Cons c cs)
  obtain r st1 where step: "syncStep banInfo c (resp 0) st = (r, st1)"
    by (cases "syncStep banInfo c (resp 0) st")
  obtain rs st2 where rest: "syncBanToAllServers banInfo cs (\<lambda>i. resp (Suc i)) st1 = (rs, st2)"
    by (cases "syncBanToAllServers banInfo cs (\<lambda>i. resp (Suc i)) st1")
  show ?case
  proof (cases j)
    case 0
    with Cons.prems step rest show ?thesis
      by (auto simp: syncStep_def Let_def isl_def split: sum.splits)
  next
    case (Suc k)
    with Cons.prems Cons.IH [of k "\<lambda>i. resp (Suc i)" st1] step rest show ?thesis by simp
  qed
qed

lemma tagged_orNoReason: "reasonTagged r \<Longrightarrow> startsWith (orNoReason r) SYNC_TAG"
  by (cases r) (auto simp: reasonTagged_def orNoReason_def startsWith_def SYNC_TAG_def)

lemma eventSyncReason_tagged: "startsWith (eventSyncReason n b) SYNC_TAG"
  by (simp add: eventSyncReason_def startsWith_def SYNC_TAG_def)

lemma syncReason_tagged: "startsWith (syncReason banInfo) SYNC_TAG"
  by (simp add: syncReason_def startsWith_def SYNC_TAG_def)

lemma newCalls_append: "calls st' = calls st @ new \<Longrightarrow> newCalls st st' = new"
  by (simp add: newCalls_def)

lemma guildBanAdd_trace:
  "\<exists>new. calls (snd (guildBanAdd servers ev env st)) = calls st @ new
     \<and> (\<forall>x\<in>set new. isBanWrite x \<longrightarrow>
           (\<exists>j<length servers. \<exists>r.
               x = MembersBan (server_id (servers ! j)) (ev_user_id ev) r
               \<and> startsWith r SYNC_TAG \<and> server_id (servers ! j) \<noteq> ev_guild_id ev))"
proof (cases "serverMap servers (ev_guild_id ev)")
  case None
  then show ?thesis by (simp add: guildBanAdd_def)
next
  case (Some src)
  obtain busy m where ibp:
    "isBanProcessing (nowEntry env) (ev_user_id ev) (ev_guild_id ev) (processingBans st) = (busy, m)"
    by (cases "isBanProcessing (nowEntry env) (ev_user_id ev) (ev_guild_id ev) (processingBans st)")
  define banReason where
    "banReason = (case fetchedBan env of Inr fetched \<Rightarrow> orNoReason (ban_reason fetched) | Inl e \<Rightarrow> NO_REASON)"
  define st1 where
    "st1 = addCall (BansFetch (ev_guild_id ev) (ev_user_id ev)) (st\<lparr>processingBans := m\<rparr>)"
  have c1: "calls st1 = calls st @ [BansFetch (ev_guild_id ev) (ev_user_id ev)]"
    by (simp add: st1_def addCall_def)
  show ?thesis
  proof (cases "busy \<or> startsWith banReason SYNC_TAG")
    case True
    then show ?thesis
      using Some ibp c1
      by (cases busy) (auto simp: guildBanAdd_def Let_def banReason_def st1_def)
  next
    case False
    obtain results st2 where loop:
      "eventLoop (ev_user_id ev) (ev_guild_id ev) (server_name src) banReason servers (nodeResp env) st1
         = (results, st2)"
      by (cases "eventLoop (ev_user_id ev) (ev_guild_id ev) (server_name src) banReason servers
                   (nodeResp env) st1")
    from eventLoop_trace [of "ev_user_id ev" "ev_guild_id ev" "server_name src" banReason servers
        "nodeResp env" st1] loop
    obtain new where n: "calls st2 = calls st1 @ new"
      and w: "\<forall>x\<in>set new. isBanWrite x \<longrightarrow>
           (\<exists>j<length servers.
               x = MembersBan (server_id (servers ! j)) (ev_user_id ev)
                     (eventSyncReason (server_name src) banReason)
               \<and> server_id (servers ! j) \<noteq> ev_guild_id ev
               \<and> inCache (nodeResp env j) \<and> botCanBan (nodeResp env j) = Inr True
               \<and> isl (existingBan (nodeResp env j)))"
      by auto
    have st2: "snd (guildBanAdd servers ev env st) = st2"
      using Some ibp False loop
      by (cases busy) (simp_all add: guildBanAdd_def Let_def banReason_def st1_def)
    have "\<forall>x\<in>set (BansFetch (ev_guild_id ev) (ev_user_id ev) # new). isBanWrite x \<longrightarrow>
           (\<exists>j<length servers. \<exists>r.
               x = MembersBan (server_id (servers ! j)) (ev_user_id ev) r
               \<and> startsWith r SYNC_TAG \<and> server_id (servers ! j) \<noteq> ev_guild_id ev)"
    proof (intro ballI impI)
      fix x assume "x \<in> set (BansFetch (ev_guild_id ev) (ev_user_id ev) # new)" and bw: "isBanWrite x"
      then have "x \<in> set new" by auto
      with w bw obtain j where "j < length servers"
        "x = MembersBan (server_id (servers ! j)) (ev_user_id ev)
               (eventSyncReason (server_name src) banReason)"
        "server_id (servers ! j) \<noteq> ev_guild_id ev" by blast
      then show "\<exists>j<length servers. \<exists>r.
               x = MembersBan (server_id (servers ! j)) (ev_user_id ev) r
               \<and> startsWith r SYNC_TAG \<and> server_id (servers ! j) \<noteq> ev_guild_id ev"
        using eventSyncReason_tagged by blast
    qed
    then show ?thesis
      using st2 n c1 by (intro exI [of _ "BansFetch (ev_guild_id ev) (ev_user_id ev) # new"]) simp
  qed
qed

lemma guildBanAdd_rejects:
  assumes "fst (isBanProcessing (nowEntry env) (ev_user_id ev) (ev_guild_id ev) (processingBans st))
           \<or> (\<exists>fb. fetchedBan env = Inr fb \<and> reasonTagged (ban_reason fb))"
  shows "fst (guildBanAdd servers ev env st) = None
         \<and> banWrites st (snd (guildBanAdd servers ev env st)) = []"
proof (cases "serverMap servers (ev_guild_id ev)")
  case None
  then show ?thesis by (simp add: guildBanAdd_def banWrites_def newCalls_def)
next
  case (Some src)
  obtain busy m where ibp:
    "isBanProcessing (nowEntry env) (ev_user_id ev) (ev_guild_id ev) (processingBans st) = (busy, m)"
    by (cases "isBanProcessing (nowEntry env) (ev_user_id ev) (ev_guild_id ev) (processingBans st)")
  show ?thesis
  proof (cases busy)
    case True
    then show ?thesis using Some ibp by (simp add: guildBanAdd_def banWrites_def newCalls_def)
  next
    case False
    with assms ibp obtain fb where fb: "fetchedBan env = Inr fb" "reasonTagged (ban_reason fb)"
      by auto
    then have "startsWith (orNoReason (ban_reason fb)) SYNC_TAG" by (simp add: tagged_orNoReason)
    then show ?thesis
      using Some ibp False fb
      by (simp add: guildBanAdd_def Let_def banWrites_def newCalls_def addCall_def)
  qed
qed


section \<open>Write attempts and the entry of the table\<close>





section \<open>The server the ban comes from\<close>

text \<open>
  C2, as the code has it. The handler issues no ban write to the guild of the event.
  When it reports, it has one outcome per configured server, and at every position that
  carries the id of the event's guild and whose guild is in the cache the outcome is
  \<^verbatim>\<open>{success: true, alreadyBanned: false}\<close> with no error: the record a successful write
  gets, and one of the outcomes that the report's counter of synced servers counts.
  \<^verbatim>\<open>syncBanToAllServers\<close> has no test for the source server; when at every
  position carrying the source's id the guild is in the cache, the bot may ban and the
  lookup finds the ban, the outcome there is \<^verbatim>\<open>{success: true, alreadyBanned: true}\<close>
  and no ban write goes to the source.
\<close>

theorem origin_outcome:
  "(\<forall>x\<in>set (banWrites st (snd (guildBanAdd servers ev env st))). callGuild x \<noteq> ev_guild_id ev)
   \<and> (\<forall>rep. fst (guildBanAdd servers ev env st) = Some rep \<longrightarrow>
         length (rep_results rep) = length servers
         \<and> rep_successCount rep
             = length (filter (\<lambda>r. success r \<and> \<not> alreadyBanned r) (rep_results rep))
         \<and> (\<forall>j<length servers. server_id (servers ! j) = ev_guild_id ev \<and> inCache (nodeResp env j) \<longrightarrow>
               rep_results rep ! j = banResult (servers ! j) True False None
               \<and> rep_results rep ! j
                     \<in> set (filter (\<lambda>r. success r \<and> \<not> alreadyBanned r) (rep_results rep))))
   \<and> ((\<forall>j<length servers. server_id (servers ! j) = sourceServerId banInfo \<longrightarrow>
          inCache (resp j) \<and> botCanBan (resp j) = Inr True \<and> \<not> isl (existingBan (resp j)))
       \<longrightarrow> (\<forall>j<length servers. server_id (servers ! j) = sourceServerId banInfo \<longrightarrow>
              fst (syncBanToAllServers banInfo servers resp st) ! j
                = banResult (servers ! j) True True None)
          \<and> (\<forall>x\<in>set (banWrites st (snd (syncBanToAllServers banInfo servers resp st))).
                callGuild x \<noteq> sourceServerId banInfo))"
proof (intro conjI)
  from guildBanAdd_trace [of servers ev env st]
  obtain new where n: "calls (snd (guildBanAdd servers ev env st)) = calls st @ new"
    and w: "\<forall>x\<in>set new. isBanWrite x \<longrightarrow>
           (\<exists>j<length servers. \<exists>r.
               x = MembersBan (server_id (servers ! j)) (ev_user_id ev) r
               \<and> startsWith r SYNC_TAG \<and> server_id (servers ! j) \<noteq> ev_guild_id ev)"
    by blast
  have nc: "newCalls st (snd (guildBanAdd servers ev env st)) = new"
    using n by (rule newCalls_append)
  show "\<forall>x\<in>set (banWrites st (snd (guildBanAdd servers ev env st))). callGuild x \<noteq> ev_guild_id ev"
    using w nc by (fastforce simp: banWrites_def)
next
  show "\<forall>rep. fst (guildBanAdd servers ev env st) = Some rep \<longrightarrow>
         length (rep_results rep) = length servers
         \<and> rep_successCount rep
             = length (filter (\<lambda>r. success r \<and> \<not> alreadyBanned r) (rep_results rep))
         \<and> (\<forall>j<length servers. server_id (servers ! j) = ev_guild_id ev \<and> inCache (nodeResp env j) \<longrightarrow>
               rep_results rep ! j = banResult (servers ! j) True False None
               \<and> rep_results rep ! j
                     \<in> set (filter (\<lambda>r. success r \<and> \<not> alreadyBanned r) (rep_results rep)))"
  proof (intro allI impI)
    fix rep assume rep: "fst (guildBanAdd servers ev env st) = Some rep"
    then obtain src where src: "serverMap servers (ev_guild_id ev) = Some src"
      by (cases "serverMap servers (ev_guild_id ev)") (auto simp: guildBanAdd_def)
    obtain busy m where ibp:
      "isBanProcessing (nowEntry env) (ev_user_id ev) (ev_guild_id ev) (processingBans st) = (busy, m)"
      by (cases "isBanProcessing (nowEntry env) (ev_user_id ev) (ev_guild_id ev) (processingBans st)")
    define banReason where
      "banReason = (case fetchedBan env of Inr fetched \<Rightarrow> orNoReason (ban_reason fetched) | Inl e \<Rightarrow> NO_REASON)"
    define st1 where
      "st1 = addCall (BansFetch (ev_guild_id ev) (ev_user_id ev)) (st\<lparr>processingBans := m\<rparr>)"
    obtain results st2 where loop:
      "eventLoop (ev_user_id ev) (ev_guild_id ev) (server_name src) banReason servers (nodeResp env) st1
         = (results, st2)"
      by (cases "eventLoop (ev_user_id ev) (ev_guild_id ev) (server_name src) banReason servers
                   (nodeResp env) st1")
    have nb: "\<not> busy" using rep src ibp by (cases busy) (auto simp: guildBanAdd_def)
    have res: "rep_results rep = results"
      using rep src ibp nb loop
      by (auto simp: guildBanAdd_def Let_def banReason_def st1_def sendBanReportToAll_def
          split: if_splits)
    have cnt: "rep_successCount rep = length (filter (\<lambda>r. success r \<and> \<not> alreadyBanned r) results)"
      using rep src ibp nb loop
      by (auto simp: guildBanAdd_def Let_def banReason_def st1_def sendBanReportToAll_def
          successCount_def split: if_splits)
    have len: "length results = length servers"
      using eventLoop_length [of "ev_user_id ev" "ev_guild_id ev" "server_name src" banReason servers
          "nodeResp env" st1] loop by simp
    have nth: "\<forall>j<length servers. server_id (servers ! j) = ev_guild_id ev \<and> inCache (nodeResp env j) \<longrightarrow>
               results ! j = banResult (servers ! j) True False None"
      using eventLoop_nth_origin [of _ servers "ev_guild_id ev" "nodeResp env" "ev_user_id ev"
          "server_name src" banReason st1] loop by auto
    have mem: "\<forall>j<length servers. server_id (servers ! j) = ev_guild_id ev \<and> inCache (nodeResp env j) \<longrightarrow>
               results ! j \<in> set (filter (\<lambda>r. success r \<and> \<not> alreadyBanned r) results)"
    proof (intro allI impI)
      fix j assume j: "j < length servers"
        and o: "server_id (servers ! j) = ev_guild_id ev \<and> inCache (nodeResp env j)"
      have "results ! j \<in> set results" using j len by simp
      moreover have "results ! j = banResult (servers ! j) True False None" using nth j o by blast
      ultimately show "results ! j \<in> set (filter (\<lambda>r. success r \<and> \<not> alreadyBanned r) results)"
        by (simp add: banResult_def)
    qed
    show "length (rep_results rep) = length servers
         \<and> rep_successCount rep
             = length (filter (\<lambda>r. success r \<and> \<not> alreadyBanned r) (rep_results rep))
         \<and> (\<forall>j<length servers. server_id (servers ! j) = ev_guild_id ev \<and> inCache (nodeResp env j) \<longrightarrow>
               rep_results rep ! j = banResult (servers ! j) True False None
               \<and> rep_results rep ! j
                     \<in> set (filter (\<lambda>r. success r \<and> \<not> alreadyBanned r) (rep_results rep)))"
      using res len cnt nth mem by simp
  qed
next
  show "(\<forall>j<length servers. server_id (servers ! j) = sourceServerId banInfo \<longrightarrow>
          inCache (resp j) \<and> botCanBan (resp j) = Inr True \<and> \<not> isl (existingBan (resp j)))
       \<longrightarrow> (\<forall>j<length servers. server_id (servers ! j) = sourceServerId banInfo \<longrightarrow>
              fst (syncBanToAllServers banInfo servers resp st) ! j
                = banResult (servers ! j) True True None)
          \<and> (\<forall>x\<in>set (banWrites st (snd (syncBanToAllServers banInfo servers resp st))).
                callGuild x \<noteq> sourceServerId banInfo)"
  proof (intro impI conjI)
    assume node: "\<forall>j<length servers. server_id (servers ! j) = sourceServerId banInfo \<longrightarrow>
          inCache (resp j) \<and> botCanBan (resp j) = Inr True \<and> \<not> isl (existingBan (resp j))"
    show "\<forall>j<length servers. server_id (servers ! j) = sourceServerId banInfo \<longrightarrow>
              fst (syncBanToAllServers banInfo servers resp st) ! j
                = banResult (servers ! j) True True None"
      using node syncLoop_nth_found [of _ servers resp banInfo st] by blast
    from syncLoop_trace [of banInfo servers resp st]
    obtain new where n: "calls (snd (syncBanToAllServers banInfo servers resp st)) = calls st @ new"
      and w: "\<forall>x\<in>set new. isBanWrite x \<longrightarrow>
           (\<exists>j<length servers.
               x = MembersBan (server_id (servers ! j)) (userId banInfo) (syncReason banInfo)
               \<and> inCache (resp j) \<and> botCanBan (resp j) = Inr True \<and> isl (existingBan (resp j)))"
      by blast
    have nc: "newCalls st (snd (syncBanToAllServers banInfo servers resp st)) = new"
      using n by (rule newCalls_append)
    show "\<forall>x\<in>set (banWrites st (snd (syncBanToAllServers banInfo servers resp st))).
                callGuild x \<noteq> sourceServerId banInfo"
      using w nc node by (fastforce simp: banWrites_def)
  qed
qed

theorem origin_outcome_witness:
  "fst (guildBanAdd [serverA, serverB] event1 (env1 [respFresh, respFresh]) initialSys)
     = Some (sendBanReportToAll ''Alpha'' user1
               [banResult serverA True False None, banResult serverB True False None] ''spam'')
   \<and> banWrites initialSys (snd (guildBanAdd [serverA, serverB] event1 (env1 [respFresh, respFresh]) initialSys))
     = [MembersBan ''B'' user1 ''[BanSync] Banned in Alpha | Reason: spam'']
   \<and> syncBanToAllServers banInfo1 [serverA, serverB]
        (answers [respFresh\<lparr>existingBan := Inr (banOf user1 (Some ''spam''))\<rparr>, respFresh] respFresh)
        initialSys
     = ([banResult serverA True True None, banResult serverB True False None],
        \<lparr>processingBans = [getBanKey user1 ''B'' \<mapsto> 1000],
         calls = [MembersFetchMe ''A'', BansFetch ''A'' user1, MembersFetchMe ''B'', BansFetch ''B'' user1,
                  MembersBan ''B'' user1 ''[BanSync] Originally banned in Alpha | Reason: spam'']\<rparr>)"
  using origin_outcome [of initialSys "[serverA, serverB]" event1 "env1 [respFresh, respFresh]" banInfo1
      "answers [respFresh\<lparr>existingBan := Inr (banOf user1 (Some ''spam''))\<rparr>, respFresh] respFresh"]
  by (simp add: fixtures event1_def env1_def banInfo1_def run_defs)

text \<open>
  C2 as stated fails. In the handler of a ban of \<open>user1\<close> made on A, with the servers A
  and B configured, the outcome recorded for A has the same \<^verbatim>\<open>success\<close>,
  \<^verbatim>\<open>alreadyBanned\<close> and \<^verbatim>\<open>error\<close> as the outcome of the write made on B, and both are
  counted as synced. In \<^verbatim>\<open>syncBanToAllServers\<close> the source server A is processed as any
  other: when its lookup of the ban is rejected, the ban is written to A.
\<close>

theorem origin_outcome_counterexample:
  "fst (guildBanAdd [serverA, serverB] event1 (env1 [respFresh, respFresh]) initialSys)
     = Some (sendBanReportToAll ''Alpha'' user1
               [banResult serverA True False None, banResult serverB True False None] ''spam'')
   \<and> banWrites initialSys (snd (guildBanAdd [serverA, serverB] event1 (env1 [respFresh, respFresh]) initialSys))
     = [MembersBan ''B'' user1 ''[BanSync] Banned in Alpha | Reason: spam'']
   \<and> success (banResult serverA True False None) = success (banResult serverB True False None)
   \<and> alreadyBanned (banResult serverA True False None) = alreadyBanned (banResult serverB True False None)
   \<and> error (banResult serverA True False None) = error (banResult serverB True False None)
   \<and> rep_successCount (sendBanReportToAll ''Alpha'' user1
               [banResult serverA True False None, banResult serverB True False None] ''spam'') = 2
   \<and> sourceServerId banInfo1 = ''A''
   \<and> fst (syncBanToAllServers banInfo1 [serverA] (answers [respFresh] respFresh) initialSys)
       = [banResult serverA True False None]
   \<and> banWrites initialSys (snd (syncBanToAllServers banInfo1 [serverA] (answers [respFresh] respFresh) initialSys))
       = [MembersBan ''A'' user1 ''[BanSync] Originally banned in Alpha | Reason: spam'']"
  by (simp add: fixtures event1_def env1_def banInfo1_def run_defs)


section \<open>The guard of the handler\<close>

text \<open>
  C3, as the code has it. When the handler of a ban event finds \<^verbatim>\<open>isBanProcessing\<close> true for the user and
  the event's guild (as it does when the table holds an entry for them, written at a
  time other than 0, whose age is within the 30 seconds), or when the ban it fetches
  carries a reason that begins with \<^verbatim>\<open>[BanSync]\<close>, it returns before its loop: no
  report, and no ban write among the calls it issues. The calls of a run extend the trace at its end. Every ban write a run of
  the handler issues goes to a configured server other than the event's guild and
  carries a reason that begins with \<^verbatim>\<open>[BanSync]\<close>; so the handler of the event that
  this write raises on the target, fetching that reason, returns before its loop in
  whatever state and at whatever time it runs: the writes of one run cause no further
  write.
\<close>

theorem loop_guard:
  "(fst (isBanProcessing (nowEntry env) (ev_user_id ev) (ev_guild_id ev) (processingBans st))
      \<or> (liveToken (nowEntry env) (processingBans st) (getBanKey (ev_user_id ev) (ev_guild_id ev))
          \<and> processingBans st (getBanKey (ev_user_id ev) (ev_guild_id ev)) \<noteq> Some 0)
      \<or> (\<exists>fb. fetchedBan env = Inr fb \<and> reasonTagged (ban_reason fb))
    \<longrightarrow> fst (guildBanAdd servers ev env st) = None
        \<and> banWrites st (snd (guildBanAdd servers ev env st)) = [])
   \<and> calls (snd (guildBanAdd servers ev env st))
       = calls st @ newCalls st (snd (guildBanAdd servers ev env st))
   \<and> (\<forall>x\<in>set (banWrites st (snd (guildBanAdd servers ev env st))).
        \<exists>g' r. x = MembersBan g' (ev_user_id ev) r \<and> startsWith r SYNC_TAG
          \<and> g' \<noteq> ev_guild_id ev \<and> g' \<in> set (map server_id servers)
          \<and> (\<forall>env' st' tag fb. fetchedBan env' = Inr fb \<and> ban_reason fb = Some r \<longrightarrow>
                fst (guildBanAdd servers
                       \<lparr>ev_user_id = ev_user_id ev, ev_user_tag = tag, ev_guild_id = g'\<rparr> env' st') = None
                \<and> banWrites st' (snd (guildBanAdd servers
                       \<lparr>ev_user_id = ev_user_id ev, ev_user_tag = tag, ev_guild_id = g'\<rparr> env' st')) = []))"
proof (intro conjI)
  show "fst (isBanProcessing (nowEntry env) (ev_user_id ev) (ev_guild_id ev) (processingBans st))
      \<or> (liveToken (nowEntry env) (processingBans st) (getBanKey (ev_user_id ev) (ev_guild_id ev))
          \<and> processingBans st (getBanKey (ev_user_id ev) (ev_guild_id ev)) \<noteq> Some 0)
      \<or> (\<exists>fb. fetchedBan env = Inr fb \<and> reasonTagged (ban_reason fb))
    \<longrightarrow> fst (guildBanAdd servers ev env st) = None
        \<and> banWrites st (snd (guildBanAdd servers ev env st)) = []"
    using guildBanAdd_rejects [of env ev st servers]
      isBanProcessing_fst [of "processingBans st" "ev_user_id ev" "ev_guild_id ev" "nowEntry env"]
    by blast
next
  from guildBanAdd_trace [of servers ev env st]
  obtain new where n: "calls (snd (guildBanAdd servers ev env st)) = calls st @ new"
    and w: "\<forall>x\<in>set new. isBanWrite x \<longrightarrow>
           (\<exists>j<length servers. \<exists>r.
               x = MembersBan (server_id (servers ! j)) (ev_user_id ev) r
               \<and> startsWith r SYNC_TAG \<and> server_id (servers ! j) \<noteq> ev_guild_id ev)"
    by blast
  have nc: "newCalls st (snd (guildBanAdd servers ev env st)) = new"
    using n by (rule newCalls_append)
  show "calls (snd (guildBanAdd servers ev env st))
       = calls st @ newCalls st (snd (guildBanAdd servers ev env st))"
    using n nc by simp
  show "\<forall>x\<in>set (banWrites st (snd (guildBanAdd servers ev env st))).
        \<exists>g' r. x = MembersBan g' (ev_user_id ev) r \<and> startsWith r SYNC_TAG
          \<and> g' \<noteq> ev_guild_id ev \<and> g' \<in> set (map server_id servers)
          \<and> (\<forall>env' st' tag fb. fetchedBan env' = Inr fb \<and> ban_reason fb = Some r \<longrightarrow>
                fst (guildBanAdd servers
                       \<lparr>ev_user_id = ev_user_id ev, ev_user_tag = tag, ev_guild_id = g'\<rparr> env' st') = None
                \<and> banWrites st' (snd (guildBanAdd servers
                       \<lparr>ev_user_id = ev_user_id ev, ev_user_tag = tag, ev_guild_id = g'\<rparr> env' st')) = [])"
  proof
    fix x assume "x \<in> set (banWrites st (snd (guildBanAdd servers ev env st)))"
    then have xin: "x \<in> set new" and xw: "isBanWrite x" using nc by (auto simp: banWrites_def)
    with w obtain j r0 where j: "j < length servers"
      and x: "x = MembersBan (server_id (servers ! j)) (ev_user_id ev) r0"
      and tag: "startsWith r0 SYNC_TAG"
      and ne: "server_id (servers ! j) \<noteq> ev_guild_id ev" by blast
    let ?g = "server_id (servers ! j)" and ?r = r0
    have mem: "?g \<in> set (map server_id servers)" using j by simp
    have echo: "\<forall>env' st' tag fb. fetchedBan env' = Inr fb \<and> ban_reason fb = Some ?r \<longrightarrow>
                fst (guildBanAdd servers
                       \<lparr>ev_user_id = ev_user_id ev, ev_user_tag = tag, ev_guild_id = ?g\<rparr> env' st') = None
                \<and> banWrites st' (snd (guildBanAdd servers
                       \<lparr>ev_user_id = ev_user_id ev, ev_user_tag = tag, ev_guild_id = ?g\<rparr> env' st')) = []"
    proof (intro allI impI)
      fix env' :: handler_env and st' :: sys and tg :: string and fb :: GuildBan
      assume a: "fetchedBan env' = Inr fb \<and> ban_reason fb = Some ?r"
      then have "reasonTagged (ban_reason fb)" using tag by (simp add: reasonTagged_def)
      with a have "\<exists>fb. fetchedBan env' = Inr fb \<and> reasonTagged (ban_reason fb)" by blast
      then show "fst (guildBanAdd servers
                       \<lparr>ev_user_id = ev_user_id ev, ev_user_tag = tg, ev_guild_id = ?g\<rparr> env' st') = None
                \<and> banWrites st' (snd (guildBanAdd servers
                       \<lparr>ev_user_id = ev_user_id ev, ev_user_tag = tg, ev_guild_id = ?g\<rparr> env' st')) = []"
        using guildBanAdd_rejects
          [of env' "\<lparr>ev_user_id = ev_user_id ev, ev_user_tag = tg, ev_guild_id = ?g\<rparr>" st' servers]
        by simp
    qed
    show "\<exists>g' r. x = MembersBan g' (ev_user_id ev) r \<and> startsWith r SYNC_TAG
          \<and> g' \<noteq> ev_guild_id ev \<and> g' \<in> set (map server_id servers)
          \<and> (\<forall>env' st' tag fb. fetchedBan env' = Inr fb \<and> ban_reason fb = Some r \<longrightarrow>
                fst (guildBanAdd servers
                       \<lparr>ev_user_id = ev_user_id ev, ev_user_tag = tag, ev_guild_id = g'\<rparr> env' st') = None
                \<and> banWrites st' (snd (guildBanAdd servers
                       \<lparr>ev_user_id = ev_user_id ev, ev_user_tag = tag, ev_guild_id = g'\<rparr> env' st')) = [])"
      using x tag ne mem echo by blast
  qed
qed

theorem loop_guard_witness:
  "banWrites initialSys (snd (guildBanAdd [serverA, serverB] event1 (env1 [respFresh, respFresh]) initialSys))
     = [MembersBan ''B'' user1 ''[BanSync] Banned in Alpha | Reason: spam'']
   \<and> fst (isBanProcessing 1500 user1 ''B''
        (processingBans (snd (guildBanAdd [serverA, serverB] event1 (env1 [respFresh, respFresh]) initialSys))))
   \<and> guildBanAdd [serverA, serverB] echoEvent (echoEnv 1500)
        (snd (guildBanAdd [serverA, serverB] event1 (env1 [respFresh, respFresh]) initialSys))
      = (None, snd (guildBanAdd [serverA, serverB] event1 (env1 [respFresh, respFresh]) initialSys))
   \<and> \<not> fst (isBanProcessing 50000 user1 ''B''
        (processingBans (snd (guildBanAdd [serverA, serverB] event1 (env1 [respFresh, respFresh]) initialSys))))
   \<and> fst (guildBanAdd [serverA, serverB] echoEvent (echoEnv 50000)
        (snd (guildBanAdd [serverA, serverB] event1 (env1 [respFresh, respFresh]) initialSys))) = None
   \<and> banWrites (snd (guildBanAdd [serverA, serverB] event1 (env1 [respFresh, respFresh]) initialSys))
        (snd (guildBanAdd [serverA, serverB] echoEvent (echoEnv 50000)
        (snd (guildBanAdd [serverA, serverB] event1 (env1 [respFresh, respFresh]) initialSys)))) = []"
  using loop_guard [of "echoEnv 50000" echoEvent
      "snd (guildBanAdd [serverA, serverB] event1 (env1 [respFresh, respFresh]) initialSys)"
      "[serverA, serverB]"]
  by (simp add: fixtures event1_def env1_def echoEvent_def echoEnv_def run_defs reasonTagged_def)



text \<open>
  C3 as stated fails when the handler's lookup of the ban is rejected. After the first
  round the ban on B carries the reason \<^verbatim>\<open>[BanSync] Banned in Alpha | Reason: spam\<close>.
  The handler of the event raised on B runs at the time 50000, when the entry for
  \<open>user1\<close> and B has expired; its lookup on B is rejected, so it takes the reason to be
  \<^verbatim>\<open>No reason provided\<close>, runs its loop and writes the ban to C.
\<close>

theorem loop_guard_counterexample:
  "banWrites initialSys firstRound
     = [MembersBan ''B'' user1 ''[BanSync] Banned in Alpha | Reason: spam'',
        MembersBan ''C'' user1 ''[BanSync] Banned in Alpha | Reason: spam'']
   \<and> startsWith ''[BanSync] Banned in Alpha | Reason: spam'' SYNC_TAG
   \<and> \<not> fst (isBanProcessing 50000 user1 ''B'' (processingBans firstRound))
   \<and> fst (guildBanAdd [serverA, serverB, serverC] echoEvent echoRejectedEnv firstRound)
       = Some (sendBanReportToAll ''Beta'' user1
                 [banResult serverA True True None, banResult serverB True False None,
                  banResult serverC True False None] ''No reason provided'')
   \<and> banWrites firstRound (snd (guildBanAdd [serverA, serverB, serverC] echoEvent echoRejectedEnv firstRound))
       = [MembersBan ''C'' user1 ''[BanSync] Banned in Beta | Reason: No reason provided'']"
  by (simp add: fixtures event1_def env1_def echoEvent_def firstRound_def echoRejectedEnv_def run_defs)

section \<open>The union of a sync pass\<close>

lemmas sync_defs = handleSyncCommand_def addBan_def reasonTagged_def startsWith_def SYNC_TAG_def
  mkBanInfo_def orNoReason_def NO_REASON_def addCall_def emptyStats_def syncStep_def isBanProcessing_def
  markBanProcessing_def unmarkBanProcessing_def getBanKey_def syncReason_def banResult_def
  countResult_def truthy_def Let_def BAN_PROCESSING_TIMEOUT_def counted_def failureCount_def
  newCalls_def banWrites_def untaggedFor_def

lemma orNoReason_nonempty: "orNoReason r \<noteq> []"
  by (cases r) (auto simp: orNoReason_def NO_REASON_def)

lemma orNoReason_untagged: "\<not> reasonTagged r \<Longrightarrow> \<not> startsWith (orNoReason r) SYNC_TAG"
  by (cases r) (auto simp: orNoReason_def reasonTagged_def NO_REASON_def startsWith_def SYNC_TAG_def)

lemma addBans_foldl:
  "addBans c bans acc = foldl (\<lambda>a p. addBan (fst p) (snd p) a) acc (map (Pair c) bans)"
  by (induction bans arbitrary: acc) simp_all

lemma collectAllBans_foldl:
  "fst (collectAllBans servers resp acc st)
     = foldl (\<lambda>a p. addBan (fst p) (snd p) a) acc (seenBans servers resp)"
proof (induction servers arbitrary: resp acc st)
  case Nil
  then show ?case by simp
next
  case (Cons c cs)
  show ?case
  proof (cases "lr_inCache (resp 0)")
    case False
    then show ?thesis using Cons.IH [of "\<lambda>i. resp (Suc i)" acc st] by simp
  next
    case True
    show ?thesis
    proof (cases "lr_bans (resp 0)")
      case (Inl e)
      then show ?thesis
        using True Cons.IH [of "\<lambda>i. resp (Suc i)" acc "addCall (BansFetchAll (server_id c)) st"]
        by (simp add: Let_def)
    next
      case (Inr bans)
      then show ?thesis
        using True
          Cons.IH [of "\<lambda>i. resp (Suc i)" "addBans c bans acc" "addCall (BansFetchAll (server_id c)) st"]
        by (simp add: Let_def addBans_foldl)
    qed
  qed
qed

lemma addBan_map_of:
  assumes inv: "\<forall>k e. map_of acc k = Some e \<longrightarrow> reason e \<noteq> []"
  shows "map_of (addBan c b acc) u =
           (case map_of acc u of
              Some e \<Rightarrow> Some e
            | None \<Rightarrow> if untaggedFor u (c, b) then Some (mkBanInfo c b) else None)"
  using inv
  by (auto simp: addBan_def untaggedFor_def update_conv' split: option.splits)

lemma addBan_inv:
  assumes inv: "\<forall>k e. map_of acc k = Some e \<longrightarrow> reason e \<noteq> []"
  shows "\<forall>k e. map_of (addBan c b acc) k = Some e \<longrightarrow> reason e \<noteq> []"
proof (intro allI impI)
  fix k e assume "map_of (addBan c b acc) k = Some e"
  then have "map_of acc k = Some e \<or> e = mkBanInfo c b"
    using addBan_map_of [OF inv, of c b k] by (auto split: option.splits if_splits)
  then show "reason e \<noteq> []"
    using inv orNoReason_nonempty by (auto simp: mkBanInfo_def)
qed

lemma addBan_distinct: "distinct (map fst acc) \<Longrightarrow> distinct (map fst (addBan c b acc))"
  by (simp add: addBan_def distinct_update)

lemma foldl_addBan_map_of:
  assumes "\<forall>k e. map_of acc k = Some e \<longrightarrow> reason e \<noteq> []"
  shows "map_of (foldl (\<lambda>a p. addBan (fst p) (snd p) a) acc xs) u =
           (case map_of acc u of
              Some e \<Rightarrow> Some e
            | None \<Rightarrow> map_option (\<lambda>p. mkBanInfo (fst p) (snd p)) (find (untaggedFor u) xs))"
  using assms
proof (induction xs arbitrary: acc)
  case Nil
  then show ?case by (simp split: option.splits)
next
  case (Cons p ps)
  have inv': "\<forall>k e. map_of (addBan (fst p) (snd p) acc) k = Some e \<longrightarrow> reason e \<noteq> []"
    using addBan_inv [OF Cons.prems] by blast
  show ?case
    using Cons.IH [OF inv'] addBan_map_of [OF Cons.prems, of "fst p" "snd p" u]
    by (auto split: option.splits)
qed

lemma foldl_addBan_distinct:
  "distinct (map fst acc) \<Longrightarrow> distinct (map fst (foldl (\<lambda>a p. addBan (fst p) (snd p) a) acc xs))"
  by (induction xs arbitrary: acc) (simp_all add: addBan_distinct)


lemma union_entry_source:
  "\<forall>kv\<in>set (fst (collectAllBans servers resp [] st)).
      \<not> startsWith (reason (snd kv)) SYNC_TAG
      \<and> (\<exists>p\<in>set (seenBans servers resp).
            \<not> reasonTagged (ban_reason (snd p)) \<and> ban_user_id (snd p) = fst kv
            \<and> snd kv = mkBanInfo (fst p) (snd p))"
proof
  fix kv assume kv: "kv \<in> set (fst (collectAllBans servers resp [] st))"
  let ?U = "fst (collectAllBans servers resp [] st)"
  have d: "distinct (map fst ?U)"
    by (simp add: collectAllBans_foldl foldl_addBan_distinct)
  have "map_of ?U (fst kv) = Some (snd kv)" using kv d by simp
  moreover have "map_of ?U (fst kv)
       = map_option (\<lambda>p. mkBanInfo (fst p) (snd p)) (find (untaggedFor (fst kv)) (seenBans servers resp))"
    using foldl_addBan_map_of [where acc = "[]" and u = "fst kv" and xs = "seenBans servers resp"]
    by (simp add: collectAllBans_foldl)
  ultimately obtain p where p: "find (untaggedFor (fst kv)) (seenBans servers resp) = Some p"
    and e: "snd kv = mkBanInfo (fst p) (snd p)" by auto
  from p have pin: "p \<in> set (seenBans servers resp)" and un: "untaggedFor (fst kv) p"
    by (auto simp: find_Some_iff)
  have "\<not> startsWith (reason (snd kv)) SYNC_TAG"
    using e un orNoReason_untagged by (simp add: mkBanInfo_def untaggedFor_def)
  then show "\<not> startsWith (reason (snd kv)) SYNC_TAG
      \<and> (\<exists>p\<in>set (seenBans servers resp).
            \<not> reasonTagged (ban_reason (snd p)) \<and> ban_user_id (snd p) = fst kv
            \<and> snd kv = mkBanInfo (fst p) (snd p))"
    using pin un e by (auto simp: untaggedFor_def)
qed

lemma collectAllBans_trace:
  "\<exists>new. calls (snd (collectAllBans servers resp acc st)) = calls st @ new
     \<and> processingBans (snd (collectAllBans servers resp acc st)) = processingBans st
     \<and> (\<forall>x\<in>set new. \<not> isBanWrite x)"
proof (induction servers arbitrary: resp acc st)
  case Nil
  then show ?case by simp
next
  case (Cons c cs)
  show ?case
  proof (cases "lr_inCache (resp 0)")
    case False
    then show ?thesis using Cons.IH [of "\<lambda>i. resp (Suc i)" acc st] by simp
  next
    case True
    let ?st1 = "addCall (BansFetchAll (server_id c)) st"
    obtain acc' where
      step: "collectAllBans (c # cs) resp acc st = collectAllBans cs (\<lambda>i. resp (Suc i)) acc' ?st1"
      using True by (cases "lr_bans (resp 0)") (auto simp: Let_def)
    from Cons.IH [of "\<lambda>i. resp (Suc i)" acc' ?st1]
    obtain new where n: "calls (snd (collectAllBans cs (\<lambda>i. resp (Suc i)) acc' ?st1)) = calls ?st1 @ new"
      and p: "processingBans (snd (collectAllBans cs (\<lambda>i. resp (Suc i)) acc' ?st1)) = processingBans ?st1"
      and w: "\<forall>x\<in>set new. \<not> isBanWrite x" by blast
    show ?thesis
      unfolding step using n p w
      by (intro exI [of _ "BansFetchAll (server_id c) # new"]) (simp add: addCall_def)
  qed
qed

lemma syncEach_trace:
  "\<exists>new. calls (snd (syncEach servers allBans resp stats st)) = calls st @ new
     \<and> (\<forall>x\<in>set new. isBanWrite x \<longrightarrow>
           (\<exists>kv\<in>set allBans. \<exists>g. x = MembersBan g (userId (snd kv)) (syncReason (snd kv))))"
proof (induction allBans arbitrary: resp stats st)
  case Nil
  then show ?case by simp
next
  case (Cons kv rest)
  obtain uid banInfo where kv: "kv = (uid, banInfo)" by (cases kv)
  obtain results st1 where run: "syncBanToAllServers banInfo servers (resp 0) st = (results, st1)"
    by (cases "syncBanToAllServers banInfo servers (resp 0) st")
  let ?stats = "countResults results
               (stats\<lparr>totalBans := totalBans stats + 1,
                      details := AList.update uid (userTag banInfo, results) (details stats)\<rparr>)"
  have step: "syncEach servers (kv # rest) resp stats st
                = syncEach servers rest (\<lambda>j. resp (Suc j)) ?stats st1"
    using kv run by simp
  from syncLoop_trace [of banInfo servers "resp 0" st] run
  obtain new1 where n1: "calls st1 = calls st @ new1"
    and w1: "\<forall>x\<in>set new1. isBanWrite x \<longrightarrow>
           (\<exists>j<length servers.
               x = MembersBan (server_id (servers ! j)) (userId banInfo) (syncReason banInfo)
               \<and> inCache (resp 0 j) \<and> botCanBan (resp 0 j) = Inr True \<and> isl (existingBan (resp 0 j)))"
    by auto
  from Cons.IH [of "\<lambda>j. resp (Suc j)" ?stats st1]
  obtain new2 where n2: "calls (snd (syncEach servers rest (\<lambda>j. resp (Suc j)) ?stats st1)) = calls st1 @ new2"
    and w2: "\<forall>x\<in>set new2. isBanWrite x \<longrightarrow>
           (\<exists>kv\<in>set rest. \<exists>g. x = MembersBan g (userId (snd kv)) (syncReason (snd kv)))"
    by blast
  have "\<forall>x\<in>set (new1 @ new2). isBanWrite x \<longrightarrow>
           (\<exists>kv'\<in>set (kv # rest). \<exists>g. x = MembersBan g (userId (snd kv')) (syncReason (snd kv')))"
  proof (intro ballI impI)
    fix x assume x: "x \<in> set (new1 @ new2)" and bw: "isBanWrite x"
    show "\<exists>kv'\<in>set (kv # rest). \<exists>g. x = MembersBan g (userId (snd kv')) (syncReason (snd kv'))"
    proof (cases "x \<in> set new1")
      case True
      with w1 bw obtain j where "x = MembersBan (server_id (servers ! j)) (userId banInfo) (syncReason banInfo)"
        by blast
      then show ?thesis using kv by auto
    next
      case False
      with x have "x \<in> set new2" by simp
      with w2 bw show ?thesis by auto
    qed
  qed
  then show ?case
    unfolding step using n1 n2 by (intro exI [of _ "new1 @ new2"]) simp
qed

lemma handleSyncCommand_writes:
  "\<forall>x\<in>set (banWrites st (snd (handleSyncCommand servers env st))).
      \<exists>kv\<in>set (fst (collectAllBans servers (listResp env) [] st)).
        \<exists>g. x = MembersBan g (userId (snd kv)) (syncReason (snd kv))"
proof (cases "sync_hasBanMembers env")
  case False
  then show ?thesis by (simp add: handleSyncCommand_def banWrites_def newCalls_def)
next
  case True
  obtain allBans st1 where col: "collectAllBans servers (listResp env) [] st = (allBans, st1)"
    by (cases "collectAllBans servers (listResp env) [] st")
  from collectAllBans_trace [of servers "listResp env" "[]" st] col
  obtain new1 where n1: "calls st1 = calls st @ new1" and w1: "\<forall>x\<in>set new1. \<not> isBanWrite x"
    by auto
  show ?thesis
  proof (cases "allBans = []")
    case True
    then show ?thesis
      using \<open>sync_hasBanMembers env\<close> col n1 w1
      by (simp add: handleSyncCommand_def banWrites_def newCalls_def filter_empty_conv)
  next
    case False
    obtain stats st2 where each: "syncEach servers allBans (propResp env) emptyStats st1 = (stats, st2)"
      by (cases "syncEach servers allBans (propResp env) emptyStats st1")
    from syncEach_trace [of servers allBans "propResp env" emptyStats st1] each
    obtain new2 where n2: "calls st2 = calls st1 @ new2"
      and w2: "\<forall>x\<in>set new2. isBanWrite x \<longrightarrow>
           (\<exists>kv\<in>set allBans. \<exists>g. x = MembersBan g (userId (snd kv)) (syncReason (snd kv)))"
      by auto
    have st2: "snd (handleSyncCommand servers env st) = st2"
      using \<open>sync_hasBanMembers env\<close> col False each by (simp add: handleSyncCommand_def)
    have "banWrites st st2 = filter isBanWrite new2"
      using n1 n2 w1 by (simp add: banWrites_def newCalls_def filter_empty_conv)
    then show ?thesis
      using st2 w2 col by auto
  qed
qed

text \<open>
  C5. In every sync pass, each entry of the union comes from a ban record that the pass
  read and whose reason does not begin with \<^verbatim>\<open>[BanSync]\<close>: the entry is built from that
  record, its key is the record's user, and its own reason does not begin with the tag.
  The union is what the pass propagates: every ban write the sync command issues bans
  the user of such an untagged record, with the reason built from it. So no record with
  a tagged reason is the origin of a propagation.
\<close>

theorem tagged_bans_excluded:
  "(\<forall>kv\<in>set (fst (collectAllBans servers (listResp env) [] st)).
      \<not> startsWith (reason (snd kv)) SYNC_TAG
      \<and> (\<exists>p\<in>set (seenBans servers (listResp env)).
            \<not> reasonTagged (ban_reason (snd p)) \<and> ban_user_id (snd p) = fst kv
            \<and> snd kv = mkBanInfo (fst p) (snd p)))
   \<and> (\<forall>x\<in>set (banWrites st (snd (handleSyncCommand servers env st))).
        \<exists>p\<in>set (seenBans servers (listResp env)).
          \<not> reasonTagged (ban_reason (snd p))
          \<and> (\<exists>g. x = MembersBan g (ban_user_id (snd p)) (syncReason (mkBanInfo (fst p) (snd p)))))"
proof (intro conjI)
  show "\<forall>kv\<in>set (fst (collectAllBans servers (listResp env) [] st)).
      \<not> startsWith (reason (snd kv)) SYNC_TAG
      \<and> (\<exists>p\<in>set (seenBans servers (listResp env)).
            \<not> reasonTagged (ban_reason (snd p)) \<and> ban_user_id (snd p) = fst kv
            \<and> snd kv = mkBanInfo (fst p) (snd p))"
    by (rule union_entry_source)
  show "\<forall>x\<in>set (banWrites st (snd (handleSyncCommand servers env st))).
        \<exists>p\<in>set (seenBans servers (listResp env)).
          \<not> reasonTagged (ban_reason (snd p))
          \<and> (\<exists>g. x = MembersBan g (ban_user_id (snd p)) (syncReason (mkBanInfo (fst p) (snd p))))"
  proof
    fix x assume "x \<in> set (banWrites st (snd (handleSyncCommand servers env st)))"
    with handleSyncCommand_writes [of st servers env]
    obtain kv g where kv: "kv \<in> set (fst (collectAllBans servers (listResp env) [] st))"
      and x: "x = MembersBan g (userId (snd kv)) (syncReason (snd kv))" by blast
    from union_entry_source [of servers "listResp env" st] kv
    obtain p where p: "p \<in> set (seenBans servers (listResp env))"
      "\<not> reasonTagged (ban_reason (snd p))" "snd kv = mkBanInfo (fst p) (snd p)" by blast
    have "userId (snd kv) = ban_user_id (snd p)" using p(3) by (simp add: mkBanInfo_def)
    with x p show "\<exists>p\<in>set (seenBans servers (listResp env)).
          \<not> reasonTagged (ban_reason (snd p))
          \<and> (\<exists>g. x = MembersBan g (ban_user_id (snd p)) (syncReason (mkBanInfo (fst p) (snd p))))"
      by auto
  qed
qed

theorem tagged_bans_excluded_witness:
  "fst (collectAllBans [serverA, serverB] (listResp syncEnv1) [] initialSys)
     = [(user1, mkBanInfo serverB (banOf user1 (Some ''spam'')))]
   \<and> banWrites initialSys (snd (handleSyncCommand [serverA, serverB] syncEnv1 initialSys)) = []
   \<and> fst (collectAllBans [serverA, serverB] (listResp syncEnv2) [] initialSys)
     = [(user1, mkBanInfo serverA (banOf user1 (Some ''spam'')))]
   \<and> banWrites initialSys (snd (handleSyncCommand [serverA, serverB] syncEnv2 initialSys))
     = [MembersBan ''B'' user1 (syncReason (mkBanInfo serverA (banOf user1 (Some ''spam''))))]"
  using tagged_bans_excluded [of "[serverA, serverB]" syncEnv1 initialSys]
    tagged_bans_excluded [of "[serverA, serverB]" syncEnv2 initialSys]
  by (simp add: fixtures listResp1_def syncEnv1_def syncEnv2_def sync_defs)




text \<open>
  When no record that the pass reads carries the tag, the entry of a user is built from
  the first record read for that user.
\<close>

lemma union_first_seen_without_tags:
  assumes "\<forall>p\<in>set (seenBans servers resp). \<not> reasonTagged (ban_reason (snd p))"
  shows "map_of (fst (collectAllBans servers resp [] st)) u
           = map_option (\<lambda>p. mkBanInfo (fst p) (snd p))
               (find (\<lambda>p. ban_user_id (snd p) = u) (seenBans servers resp))"
proof -
  have "find (untaggedFor u) (seenBans servers resp)
          = find (\<lambda>p. ban_user_id (snd p) = u) (seenBans servers resp)"
    using assms by (intro find_cong) (auto simp: untaggedFor_def)
  moreover have "map_of (fst (collectAllBans servers resp [] st)) u
       = map_option (\<lambda>p. mkBanInfo (fst p) (snd p)) (find (untaggedFor u) (seenBans servers resp))"
    using foldl_addBan_map_of [where acc = "[]" and u = u and xs = "seenBans servers resp"]
    by (simp add: collectAllBans_foldl)
  ultimately show ?thesis by simp
qed

section \<open>The counters\<close>

text \<open>
  The outcomes a loop records never have \<^verbatim>\<open>alreadyBanned\<close> (or \<^verbatim>\<open>wasNotBanned\<close>) set
  without \<^verbatim>\<open>success\<close>, so the three filters of the handler and of the unban command
  split the outcomes: their counts add up to the number of configured servers. The
  chain of the sync command counts an outcome at most once, and counts every outcome of
  a pass in which no rejection carries an empty message.
\<close>

lemma three_way_count:
  "\<forall>r\<in>set rs. Q r \<longrightarrow> P r \<Longrightarrow>
   length (filter (\<lambda>r. P r \<and> \<not> Q r) rs) + length (filter Q rs) + length (filter (\<lambda>r. \<not> P r) rs)
     = length rs"
  by (induction rs) auto

lemma eventStep_shape: "alreadyBanned (fst (eventStep u g n b c r st)) \<longrightarrow> success (fst (eventStep u g n b c r st))"
  by (cases "isBanProcessing (nowCheck r) u (server_id c) (processingBans st)")
     (auto simp: eventStep_def banResult_def addCall_def Let_def
           split: sum.splits bool.splits option.splits)

lemma eventLoop_shape:
  "\<forall>r\<in>set (fst (eventLoop u g n b servers resp st)). alreadyBanned r \<longrightarrow> success r"
proof (induction servers arbitrary: resp st)
  case Nil
  then show ?case by simp
next
  case (Cons c cs)
  obtain r st1 where step: "eventStep u g n b c (resp 0) st = (r, st1)"
    by (cases "eventStep u g n b c (resp 0) st")
  obtain rs st2 where rest: "eventLoop u g n b cs (\<lambda>i. resp (Suc i)) st1 = (rs, st2)"
    by (cases "eventLoop u g n b cs (\<lambda>i. resp (Suc i)) st1")
  from eventStep_shape [of u g n b c "resp 0" st] step Cons.IH [of "\<lambda>i. resp (Suc i)" st1] rest
  show ?case by simp
qed

lemma handler_counters_partition:
  "successCount (fst (eventLoop u g n b servers resp st))
   + alreadyBannedCount (fst (eventLoop u g n b servers resp st))
   + failureCount (fst (eventLoop u g n b servers resp st)) = length servers"
  using three_way_count [OF eventLoop_shape, of u g n b servers resp st]
    eventLoop_length [of u g n b servers resp st]
  by (simp add: successCount_def alreadyBannedCount_def failureCount_def)

lemma unbanStep_shape: "wasNotBanned (fst (unbanStep uid a c r st)) \<longrightarrow> success_u (fst (unbanStep uid a c r st))"
  by (auto simp: unbanStep_def unbanResult_def Let_def split: sum.splits bool.splits option.splits)

lemma unbanLoop_shape:
  "\<forall>r\<in>set (fst (unbanLoop uid a servers resp st)). wasNotBanned r \<longrightarrow> success_u r"
proof (induction servers arbitrary: resp st)
  case Nil
  then show ?case by simp
next
  case (Cons c cs)
  obtain r st1 where step: "unbanStep uid a c (resp 0) st = (r, st1)"
    by (cases "unbanStep uid a c (resp 0) st")
  obtain rs st2 where rest: "unbanLoop uid a cs (\<lambda>i. resp (Suc i)) st1 = (rs, st2)"
    by (cases "unbanLoop uid a cs (\<lambda>i. resp (Suc i)) st1")
  from unbanStep_shape [of uid a c "resp 0" st] step Cons.IH [of "\<lambda>i. resp (Suc i)" st1] rest
  show ?case by simp
qed

lemma unban_counters_partition:
  "unbannedCount (fst (unbanLoop uid a servers resp st))
   + notBannedCount (fst (unbanLoop uid a servers resp st))
   + errorCount (fst (unbanLoop uid a servers resp st)) = length servers"
  using three_way_count [OF unbanLoop_shape, of uid a servers resp st]
    unbanLoop_length [of uid a servers resp st]
  by (simp add: unbannedCount_def notBannedCount_def errorCount_def)

lemma countResult_counted:
  "counted (countResult r stats)
     = counted stats + (if success r \<or> alreadyBanned r \<or> truthy (error r) then 1 else 0)"
  by (auto simp: countResult_def counted_def)

lemma countResults_counted:
  "counted (countResults rs stats)
     = counted stats + length (filter (\<lambda>r. success r \<or> alreadyBanned r \<or> truthy (error r)) rs)"
  by (induction rs arbitrary: stats) (simp_all add: countResult_counted)

lemma syncStep_counted:
  assumes "\<forall>e. botCanBan r = Inl e \<or> writeOutcome r = Some e \<longrightarrow> errorMessage e \<noteq> []"
  shows "success (fst (syncStep banInfo c r st)) \<or> truthy (error (fst (syncStep banInfo c r st)))"
  using assms
  by (cases "isBanProcessing (nowCheck r) (userId banInfo) (server_id c) (processingBans st)")
     (auto simp: syncStep_def banResult_def truthy_def addCall_def Let_def
           split: sum.splits bool.splits option.splits)

lemma syncLoop_counted:
  assumes "\<forall>j<length servers. \<forall>e. botCanBan (resp j) = Inl e \<or> writeOutcome (resp j) = Some e
             \<longrightarrow> errorMessage e \<noteq> []"
  shows "\<forall>r\<in>set (fst (syncBanToAllServers banInfo servers resp st)). success r \<or> truthy (error r)"
  using assms
proof (induction servers arbitrary: resp st)
  case Nil
  then show ?case by simp
next
  case (Cons c cs)
  obtain r st1 where step: "syncStep banInfo c (resp 0) st = (r, st1)"
    by (cases "syncStep banInfo c (resp 0) st")
  obtain rs st2 where rest: "syncBanToAllServers banInfo cs (\<lambda>i. resp (Suc i)) st1 = (rs, st2)"
    by (cases "syncBanToAllServers banInfo cs (\<lambda>i. resp (Suc i)) st1")
  have h0: "\<forall>e. botCanBan (resp 0) = Inl e \<or> writeOutcome (resp 0) = Some e \<longrightarrow> errorMessage e \<noteq> []"
    using Cons.prems by auto
  have hs: "\<forall>j<length cs. \<forall>e. botCanBan (resp (Suc j)) = Inl e \<or> writeOutcome (resp (Suc j)) = Some e
             \<longrightarrow> errorMessage e \<noteq> []"
    using Cons.prems by auto
  from syncStep_counted [OF h0, of banInfo c st] step Cons.IH [of "\<lambda>i. resp (Suc i)" st1, OF hs] rest
  show ?case by simp
qed

lemma sync_counters_partition_if_messages:
  assumes "\<forall>j<length servers. \<forall>e. botCanBan (resp j) = Inl e \<or> writeOutcome (resp j) = Some e
             \<longrightarrow> errorMessage e \<noteq> []"
  shows "counted (countResults (fst (syncBanToAllServers banInfo servers resp st)) stats)
           = counted stats + length servers"
proof -
  let ?rs = "fst (syncBanToAllServers banInfo servers resp st)"
  have "filter (\<lambda>r. success r \<or> alreadyBanned r \<or> truthy (error r)) ?rs = ?rs"
    using syncLoop_counted [OF assms, of banInfo st] by (auto simp: filter_id_conv)
  then show ?thesis
    using syncLoop_length [of banInfo servers resp st] by (simp add: countResults_counted)
qed

text \<open>
  C7 fails in the sync command. A's lookup finds the ban; B's write is rejected with an
  \<^verbatim>\<open>Error\<close> whose message is empty. The outcome recorded for B,
  \<^verbatim>\<open>{success: false, alreadyBanned: false, error: ''}\<close>, passes none of the three tests of
  the chain, the last being \<^verbatim>\<open>!result.success && result.error\<close>: the three counters sum
  to 1 for 2 outcomes. The counter of failures of the handler, \<^verbatim>\<open>!r.success\<close>, counts
  that outcome.
\<close>

theorem sync_counters_drop_failure:
  "handleSyncCommand [serverA, serverB] syncEnv2 initialSys
   = (SyncSummary \<lparr>totalBans = 1, newBans = 0, stats_alreadyBanned = 1, errors = 0,
         details = [(user1, ''user#0001'',
                     [banResult serverA True True None, banResult serverB False False (Some [])])]\<rparr>,
      \<lparr>processingBans = Map.empty,
       calls = [BansFetchAll ''A'', BansFetchAll ''B'', MembersFetchMe ''A'', BansFetch ''A'' user1,
                MembersFetchMe ''B'', BansFetch ''B'' user1,
                MembersBan ''B'' user1 ''[BanSync] Originally banned in Alpha | Reason: spam'']\<rparr>)
   \<and> counted \<lparr>totalBans = 1, newBans = 0, stats_alreadyBanned = 1, errors = 0,
         details = [(user1, ''user#0001'',
                     [banResult serverA True True None, banResult serverB False False (Some [])])]\<rparr> = 1
   \<and> length [banResult serverA True True None, banResult serverB False False (Some [])] = 2
   \<and> failureCount [banResult serverA True True None, banResult serverB False False (Some [])] = 1"
  by (simp add: fixtures syncEnv2_def sync_defs)

end
